theory Spec2Isabelle
  imports Main
begin

section \<open>JSON values and the JavaScript operations the code applies to them\<close>

text \<open>
  Both units work on untyped JSON. A value is a tree; an object is the list of its own
  fields in insertion order (first occurrence of a key counts). A number is kept by its
  canonical rendering \<open>String(n)\<close>: the code never computes with numbers, it only tests
  them for truthiness and prints them. A string is the list of its bytes in UTF-8; every
  test the code makes on a string concerns ASCII characters and reads the same on bytes.
  Prototype members are not part of the model: a property read finds own fields only.
\<close>

datatype json =
    JNull
  | JBool bool
  | JNum string
  | JStr string
  | JArr "json list"
  | JObj "(string \<times> json) list"

type_synonym jsobject = "(string \<times> json) list"

text \<open>\<open>key in obj\<close> and \<open>obj.key\<close> on an object; \<open>None\<close> is \<open>undefined\<close>. The field
  operations do not depend on what the values are, so that they serve the store model
  below as well.\<close>

definition has_key :: "string \<Rightarrow> (string \<times> 'a) list \<Rightarrow> bool" where
  "has_key k fs = (map_of fs k \<noteq> None)"

definition get_prop :: "(string \<times> 'a) list \<Rightarrow> string \<Rightarrow> 'a option" where
  "get_prop fs k = map_of fs k"

text \<open>Truthiness of a value that may be \<open>undefined\<close>.\<close>

fun truthy :: "json option \<Rightarrow> bool" where
  "truthy None = False"
| "truthy (Some JNull) = False"
| "truthy (Some (JBool b)) = b"
| "truthy (Some (JNum n)) = (n \<noteq> ''0'')"
| "truthy (Some (JStr s)) = (s \<noteq> [])"
| "truthy (Some (JArr xs)) = True"
| "truthy (Some (JObj fs)) = True"

text \<open>\<open>a || b\<close>.\<close>

definition js_or :: "json option \<Rightarrow> json option \<Rightarrow> json option" where
  "js_or a b = (if truthy a then a else b)"

text \<open>\<open>delete obj.key\<close> and \<open>obj.key = v\<close>: an existing key keeps its place, a new key
  goes last.\<close>

definition delete_prop :: "string \<Rightarrow> (string \<times> 'a) list \<Rightarrow> (string \<times> 'a) list" where
  "delete_prop k fs = filter (\<lambda>kv. fst kv \<noteq> k) fs"

fun set_prop :: "string \<Rightarrow> 'a \<Rightarrow> (string \<times> 'a) list \<Rightarrow> (string \<times> 'a) list" where
  "set_prop k v [] = [(k, v)]"
| "set_prop k v (kv # fs) = (if fst kv = k then (k, v) # fs else kv # set_prop k v fs)"

text \<open>\<open>s.startsWith(p)\<close>, \<open>s.includes(p)\<close>, \<open>s.split(c)\<close>.\<close>

definition startsWith :: "string \<Rightarrow> string \<Rightarrow> bool" where
  "startsWith s p = (take (length p) s = p)"

fun str_includes :: "string \<Rightarrow> string \<Rightarrow> bool" where
  "str_includes [] p = (p = [])"
| "str_includes (c # cs) p = (startsWith (c # cs) p \<or> str_includes cs p)"

fun split_on :: "char \<Rightarrow> string \<Rightarrow> string list" where
  "split_on c [] = [[]]"
| "split_on c (x # xs) =
     (if x = c then [] # split_on c xs
      else (case split_on c xs of
              [] \<Rightarrow> [[x]]
            | seg # segs \<Rightarrow> (x # seg) # segs))"

text \<open>Joining with a separator, as \<open>Array.prototype.join\<close> does.\<close>

fun join_with :: "string \<Rightarrow> string list \<Rightarrow> string" where
  "join_with sep [] = []"
| "join_with sep [s] = s"
| "join_with sep (s # t # ss) = s @ sep @ join_with sep (t # ss)"

text \<open>\<open>String(v)\<close>, as a template literal or a regular expression test applies it to a
  value that is not a string: an array joins its elements with commas (\<open>null\<close> elements
  print as nothing), an object prints as \<open>[object Object]\<close>.\<close>

fun to_string :: "json \<Rightarrow> string" where
  "to_string JNull = ''null''"
| "to_string (JBool b) = (if b then ''true'' else ''false'')"
| "to_string (JNum n) = n"
| "to_string (JStr s) = s"
| "to_string (JArr xs) =
     join_with '','' (map (\<lambda>x. if x = JNull then [] else to_string x) xs)"
| "to_string (JObj fs) = ''[object Object]''"

section \<open>The transport ping filter (\<open>src/lib/mcp-transport.ts\<close>)\<close>

text \<open>
  The wrapper owns three callback slots the client may set, and installs its own handlers
  on the wrapped transport. What the outside can observe is recorded in call order: the
  messages handed to the client's \<open>onmessage\<close>, the errors handed to its \<open>onerror\<close>,
  the calls of its \<open>onclose\<close>, and the arguments of the wrapped transport's \<open>send\<close>,
  \<open>start\<close> and \<open>close\<close>. An unset slot drops the event (\<open>this.onmessage?.(m)\<close>).
\<close>

record wrapper =
  onmessage_set :: bool
  onclose_set :: bool
  onerror_set :: bool
  onmessage_calls :: "jsobject list"
  onclose_calls :: nat
  onerror_calls :: "string list"
  send_calls :: "jsobject list"
  start_calls :: nat
  close_calls :: nat

text \<open>The wrapped transport's \<open>send\<close> settles each message: \<open>None\<close> when the promise
  resolves, \<open>Some e\<close> when it rejects with error \<open>e\<close>.\<close>

type_synonym transport_send = "jsobject \<Rightarrow> string option"

definition call_onmessage :: "jsobject \<Rightarrow> wrapper \<Rightarrow> wrapper" where
  "call_onmessage m w =
     (if onmessage_set w then w\<lparr>onmessage_calls := onmessage_calls w @ [m]\<rparr> else w)"

definition call_onerror :: "string \<Rightarrow> wrapper \<Rightarrow> wrapper" where
  "call_onerror e w =
     (if onerror_set w then w\<lparr>onerror_calls := onerror_calls w @ [e]\<rparr> else w)"

definition call_onclose :: "wrapper \<Rightarrow> wrapper" where
  "call_onclose w = (if onclose_set w then w\<lparr>onclose_calls := Suc (onclose_calls w)\<rparr> else w)"

definition pong :: "json \<Rightarrow> jsobject" where
  "pong i = [(''jsonrpc'', JStr ''2.0''), (''id'', i), (''result'', JObj [])]"

text \<open>\<open>handlePing\<close>: the call of \<open>send\<close> happens before the first suspension, so it is part
  of the dispatch of the ping; a rejection goes to the client's \<open>onerror\<close>.\<close>

definition handlePing :: "transport_send \<Rightarrow> jsobject \<Rightarrow> wrapper \<Rightarrow> wrapper" where
  "handlePing send message w =
     (case get_prop message ''id'' of
        Some i \<Rightarrow>
          (let response = pong i;
               w' = w\<lparr>send_calls := send_calls w @ [response]\<rparr>
           in (case send response of
                 None \<Rightarrow> w'
               | Some e \<Rightarrow> call_onerror e w'))
      | None \<Rightarrow> w)"

text \<open>The handler the constructor installs as \<open>originalTransport.onmessage\<close>.\<close>

definition inbound :: "transport_send \<Rightarrow> jsobject \<Rightarrow> wrapper \<Rightarrow> wrapper" where
  "inbound send message w =
     (if has_key ''method'' message \<and> get_prop message ''method'' = Some (JStr ''ping'')
      then handlePing send message w
      else call_onmessage message w)"

text \<open>The handlers installed as \<open>originalTransport.onclose\<close> and \<open>onerror\<close>, and the three
  delegating methods.\<close>

definition inbound_close :: "wrapper \<Rightarrow> wrapper" where
  "inbound_close w = call_onclose w"

definition inbound_error :: "string \<Rightarrow> wrapper \<Rightarrow> wrapper" where
  "inbound_error e w = call_onerror e w"

definition wrapper_start :: "wrapper \<Rightarrow> wrapper" where
  "wrapper_start w = w\<lparr>start_calls := Suc (start_calls w)\<rparr>"

definition wrapper_send :: "jsobject \<Rightarrow> wrapper \<Rightarrow> wrapper" where
  "wrapper_send m w = w\<lparr>send_calls := send_calls w @ [m]\<rparr>"

definition wrapper_close :: "wrapper \<Rightarrow> wrapper" where
  "wrapper_close w = w\<lparr>close_calls := Suc (close_calls w)\<rparr>"

text \<open>A freshly constructed wrapper whose client has set all three callbacks.\<close>

definition fresh_wrapper :: wrapper where
  "fresh_wrapper =
     \<lparr>onmessage_set = True, onclose_set = True, onerror_set = True,
      onmessage_calls = [], onclose_calls = 0, onerror_calls = [],
      send_calls = [], start_calls = 0, close_calls = 0\<rparr>"

section \<open>The base64 offload pipeline (\<open>src/app/lib/s3-utils.ts\<close>)\<close>

subsection \<open>The regular expressions\<close>

definition MAX_CONCURRENT_UPLOADS :: nat where
  "MAX_CONCURRENT_UPLOADS = 10"

definition is_alnum :: "char \<Rightarrow> bool" where
  "is_alnum c = (c \<in> set (''ABCDEFGHIJKLMNOPQRSTUVWXYZ'' @ ''abcdefghijklmnopqrstuvwxyz''
                            @ ''0123456789''))"

definition is_base64_char :: "char \<Rightarrow> bool" where
  "is_base64_char c = (is_alnum c \<or> c = CHR ''+'' \<or> c = CHR ''/'')"

text \<open>\<open>/^[A-Za-z0-9+/]+=*$/.test(s)\<close>. The character class excludes \<open>=\<close>, so the only way
  to match is the longest run of class characters, not empty, followed by \<open>=\<close> signs up to
  the end.\<close>

definition looks_base64 :: "string \<Rightarrow> bool" where
  "looks_base64 s =
     (takeWhile is_base64_char s \<noteq> []
      \<and> list_all (\<lambda>c. c = CHR ''='') (dropWhile is_base64_char s))"

text \<open>\<open>/\.[a-zA-Z0-9]+$/.test(name)\<close>: the name ends with a dot and at least one letter or
  digit after it.\<close>

definition has_extension :: "string \<Rightarrow> bool" where
  "has_extension name =
     (takeWhile is_alnum (rev name) \<noteq> []
      \<and> (case dropWhile is_alnum (rev name) of [] \<Rightarrow> False | c # cs \<Rightarrow> c = CHR ''.''))"

text \<open>The line terminators that \<open>.\<close> does not match: LF, CR, and U+2028 and U+2029, which
  are three bytes each in UTF-8.\<close>

definition has_line_terminator :: "string \<Rightarrow> bool" where
  "has_line_terminator s =
     (CHR 0x0A \<in> set s \<or> CHR 0x0D \<in> set s
      \<or> str_includes s [CHR 0xE2, CHR 0x80, CHR 0xA8]
      \<or> str_includes s [CHR 0xE2, CHR 0x80, CHR 0xA9])"

text \<open>\<open>parseDataUrl\<close>: \<open>dataUrl.match(/^data:([^;]+);base64,(.+)$/)\<close>. The first group
  cannot cross a semicolon, so it is the text up to the first one; the result is the pair
  (mimeType, data).\<close>

definition parseDataUrl :: "string \<Rightarrow> (string \<times> string) option" where
  "parseDataUrl dataUrl =
     (if startsWith dataUrl ''data:'' then
        (let rest = drop 5 dataUrl;
             mime = takeWhile (\<lambda>c. c \<noteq> CHR '';'') rest;
             tail = dropWhile (\<lambda>c. c \<noteq> CHR '';'') rest;
             payload = drop 8 tail
         in if mime \<noteq> [] \<and> startsWith tail '';base64,'' \<and> payload \<noteq> []
               \<and> \<not> has_line_terminator payload
            then Some (mime, payload) else None)
      else None)"

subsection \<open>File extension and the upload primitive\<close>

datatype error =
    InvalidInput    \<comment> \<open>\<open>Invalid base64 data URL or missing mimeType for raw base64\<close>\<close>
  | TypeError       \<comment> \<open>a property read on \<open>null\<close>, a method missing on a value\<close>
  | UploadRejected  \<comment> \<open>the storage client's \<open>send\<close> rejected\<close>
  | SignRejected    \<comment> \<open>\<open>getSignedUrl\<close> rejected\<close>
  | RangeError      \<comment> \<open>the call stack exhausted by a recursion that does not end\<close>

definition mimeToExt :: "(string \<times> string) list" where
  "mimeToExt =
     [(''image/jpeg'', ''jpg''),
      (''image/png'', ''png''),
      (''image/gif'', ''gif''),
      (''image/webp'', ''webp''),
      (''image/svg+xml'', ''svg''),
      (''video/mp4'', ''mp4''),
      (''video/webm'', ''webm''),
      (''audio/mpeg'', ''mp3''),
      (''audio/wav'', ''wav''),
      (''audio/ogg'', ''ogg''),
      (''application/pdf'', ''pdf''),
      (''application/json'', ''json''),
      (''text/plain'', ''txt''),
      (''text/html'', ''html''),
      (''text/css'', ''css''),
      (''text/javascript'', ''js''),
      (''application/javascript'', ''js''),
      (''application/octet-stream'', ''bin'')]"

text \<open>\<open>getExtensionFromMimeType\<close>: \<open>mimeToExt[mimeType] || mimeType.split('/')[1] || 'bin'\<close>.
  The parameter is declared a string but reaches here through unchecked casts, so it is
  any JSON value: the table is indexed by its rendering, and \<open>split\<close> exists on strings
  only.\<close>

definition getExtensionFromMimeType :: "json \<Rightarrow> error + string" where
  "getExtensionFromMimeType mimeType =
     (case map_of mimeToExt (to_string mimeType) of
        Some ext \<Rightarrow> Inr ext
      | None \<Rightarrow>
          (case mimeType of
             JStr s \<Rightarrow>
               (case split_on CHR ''/'' s of
                  a # b # segs \<Rightarrow> if b \<noteq> [] then Inr b else Inr ''bin''
                | _ \<Rightarrow> Inr ''bin'')
           | _ \<Rightarrow> Inl TypeError))"

record PutObjectCommand =
  Bucket :: string
  Key :: string
  Body :: string    \<comment> \<open>the base64 text whose decoding is the body\<close>
  ContentType :: json
  ACL :: string

text \<open>
  The surroundings of the module: the bucket name, the identifiers \<open>crypto.randomUUID\<close>
  returns (by call number), whether the storage client's \<open>send\<close> of a put command
  resolves (by call number and command), and what \<open>getSignedUrl\<close> gives for a bucket, a
  key and an expiry in seconds (\<open>None\<close> when it rejects).
\<close>

record storage =
  BUCKET_NAME :: string
  randomUUID :: "nat \<Rightarrow> string"
  s3_send :: "nat \<Rightarrow> PutObjectCommand \<Rightarrow> bool"
  getSignedUrl :: "string \<Rightarrow> string \<Rightarrow> nat \<Rightarrow> string option"

text \<open>What a run has done to the surroundings so far: the number of identifiers drawn and
  the put commands handed to the storage client, in call order.\<close>

record world =
  uuid_calls :: nat
  put_calls :: "PutObjectCommand list"

text \<open>The final file name: the candidate kept when it has an extension, else completed
  from the MIME type; \<open>file.<ext>\<close> when no candidate is given.\<close>

definition final_filename :: "json option \<Rightarrow> json \<Rightarrow> error + string" where
  "final_filename originalFilename mimeType =
     (case originalFilename of
        Some name \<Rightarrow>
          (if truthy (Some name) then
             (if has_extension (to_string name) then Inr (to_string name)
              else (case getExtensionFromMimeType mimeType of
                      Inl e \<Rightarrow> Inl e
                    | Inr fileExtension \<Rightarrow> Inr (to_string name @ ''.'' @ fileExtension)))
           else (case getExtensionFromMimeType mimeType of
                   Inl e \<Rightarrow> Inl e
                 | Inr fileExtension \<Rightarrow> Inr (''file.'' @ fileExtension)))
      | None \<Rightarrow>
          (case getExtensionFromMimeType mimeType of
             Inl e \<Rightarrow> Inl e
           | Inr fileExtension \<Rightarrow> Inr (''file.'' @ fileExtension)))"

text \<open>
  \<open>uploadBase64ToS3\<close> runs without suspending up to its first \<open>await\<close>, the storage
  client's \<open>send\<close>: \<open>upload_begin\<close> is that part. It either throws, or leaves the put
  command with the storage client and the upload in flight (the call number of the send
  and the command are what the rest needs).
\<close>

type_synonym in_flight = "nat \<times> PutObjectCommand"

definition upload_begin ::
  "storage \<Rightarrow> string \<Rightarrow> json option \<Rightarrow> json option \<Rightarrow> world \<Rightarrow> (error + in_flight) \<times> world" where
  "upload_begin st base64Data originalFilename mimeType w =
     (let parsed =
            (case parseDataUrl base64Data of
               Some (m, d) \<Rightarrow> Some (JStr m, d)
             | None \<Rightarrow>
                 (case mimeType of
                    Some m \<Rightarrow> if truthy (Some m) then Some (m, base64Data) else None
                  | None \<Rightarrow> None))
      in case parsed of
           None \<Rightarrow> (Inl InvalidInput, w)
         | Some (parsedMime, parsedData) \<Rightarrow>
             (let uuid = randomUUID st (uuid_calls w);
                  w1 = w\<lparr>uuid_calls := Suc (uuid_calls w)\<rparr>
              in case final_filename originalFilename parsedMime of
                   Inl e \<Rightarrow> (Inl e, w1)
                 | Inr filename \<Rightarrow>
                     (let fileName = ''uploads/'' @ uuid @ ''/'' @ filename;
                          putCommand = \<lparr>Bucket = BUCKET_NAME st, Key = fileName,
                                        Body = parsedData, ContentType = parsedMime,
                                        ACL = ''public-read''\<rparr>
                      in (Inr (length (put_calls w1), putCommand),
                          w1\<lparr>put_calls := put_calls w1 @ [putCommand]\<rparr>))))"

text \<open>The rest of \<open>uploadBase64ToS3\<close>, once the send has settled: a rejection propagates,
  otherwise the URL is signed for the same key with an expiry of seven days.\<close>

definition upload_end :: "storage \<Rightarrow> in_flight \<Rightarrow> error + string" where
  "upload_end st p =
     (if s3_send st (fst p) (snd p) then
        (case getSignedUrl st (BUCKET_NAME st) (Key (snd p)) (3600 * 24 * 7) of
           Some presignedUrl \<Rightarrow> Inr presignedUrl
         | None \<Rightarrow> Inl SignRejected)
      else Inl UploadRejected)"

definition uploadBase64ToS3 ::
  "storage \<Rightarrow> string \<Rightarrow> json option \<Rightarrow> json option \<Rightarrow> world \<Rightarrow> (error + string) \<times> world" where
  "uploadBase64ToS3 st base64Data originalFilename mimeType w =
     (case upload_begin st base64Data originalFilename mimeType w of
        (Inl e, w') \<Rightarrow> (Inl e, w')
      | (Inr p, w') \<Rightarrow> (upload_end st p, w'))"

subsection \<open>The generic walk\<close>

text \<open>
  \<open>replaceBase64InObject\<close>, by its result: every upload is caught where it is made, so the
  walk itself never throws. The uploads of one walk are taken in traversal order.
\<close>

fun replaceBase64InObject ::
      "storage \<Rightarrow> json \<Rightarrow> json option \<Rightarrow> json option \<Rightarrow> world \<Rightarrow> json \<times> world"
  and replace_items ::
      "storage \<Rightarrow> json list \<Rightarrow> json option \<Rightarrow> json option \<Rightarrow> world \<Rightarrow> json list \<times> world"
  and replace_entries ::
      "storage \<Rightarrow> jsobject \<Rightarrow> jsobject \<Rightarrow> json option \<Rightarrow> json option \<Rightarrow> world
         \<Rightarrow> jsobject \<times> world"
where
  "replaceBase64InObject st (JStr s) filename mimeType w =
     (if startsWith s ''data:'' \<and> str_includes s '';base64,'' then
        (case uploadBase64ToS3 st s filename None w of
           (Inr url, w') \<Rightarrow> (JStr url, w')
         | (Inl e, w') \<Rightarrow> (JStr s, w'))
      else if truthy mimeType \<and> looks_base64 (take 100 s) then
        (case uploadBase64ToS3 st s filename mimeType w of
           (Inr url, w') \<Rightarrow> (JStr url, w')
         | (Inl e, w') \<Rightarrow> (JStr s, w'))
      else (JStr s, w))"
| "replaceBase64InObject st (JArr xs) filename mimeType w =
     (case replace_items st xs filename mimeType w of (ys, w') \<Rightarrow> (JArr ys, w'))"
| "replaceBase64InObject st (JObj fs) filename mimeType w =
     (case replace_entries st fs fs filename mimeType w of (gs, w') \<Rightarrow> (JObj gs, w'))"
| "replaceBase64InObject st JNull filename mimeType w = (JNull, w)"
| "replaceBase64InObject st (JBool b) filename mimeType w = (JBool b, w)"
| "replaceBase64InObject st (JNum n) filename mimeType w = (JNum n, w)"
| "replace_items st [] filename mimeType w = ([], w)"
| "replace_items st (x # xs) filename mimeType w =
     (case replaceBase64InObject st x filename mimeType w of
        (y, w1) \<Rightarrow>
          (case replace_items st xs filename mimeType w1 of
             (ys, w2) \<Rightarrow> (y # ys, w2)))"
| "replace_entries st obj [] filename mimeType w = ([], w)"
| "replace_entries st obj (kv # rest) filename mimeType w =
     (let currentMimeType =
            (if fst kv = ''data'' \<and> has_key ''mimeType'' obj
             then get_prop obj ''mimeType'' else mimeType)
      in case replaceBase64InObject st (snd kv) filename currentMimeType w of
           (v, w1) \<Rightarrow>
             (case replace_entries st obj rest filename mimeType w1 of
                (gs, w2) \<Rightarrow> ((fst kv, v) # gs, w2)))"

text \<open>\<open>JSON.parse(JSON.stringify(x))\<close> of a JSON tree is an equal tree; what the copy is
  for, leaving the caller's objects alone, is the subject of the store model below.\<close>

definition json_clone :: "json \<Rightarrow> json" where
  "json_clone x = x"

text \<open>\<open>processToolCallForBase64\<close>: the result is the tool name with the walked arguments.\<close>

definition processToolCallForBase64 ::
  "storage \<Rightarrow> string \<times> json \<Rightarrow> world \<Rightarrow> (string \<times> json) \<times> world" where
  "processToolCallForBase64 st toolCall w =
     (let processedArgs = json_clone (snd toolCall);
          filename = (case processedArgs of
                        JObj fs \<Rightarrow> if has_key ''filename'' fs then get_prop fs ''filename'' else None
                      | _ \<Rightarrow> None)
      in case replaceBase64InObject st processedArgs filename None w of
           (updatedArgs, w') \<Rightarrow> ((fst toolCall, updatedArgs), w'))"

subsection \<open>Upload promises and the batching scheduler\<close>

text \<open>
  The two entry points that work on content parts build each upload as
  \<open>(async () => { try { ... await uploadBase64ToS3(...) ... } catch { ... } })()\<close>. The
  function is called where it is written, so it runs at once up to its first suspension:
  it reads the part, and \<open>uploadBase64ToS3\<close> runs up to the storage client's \<open>send\<close>.
  The promise pushed on \<open>uploadPromises\<close> is therefore in one of two states: the upload
  threw before suspending and the \<open>catch\<close> has absorbed it, or the put command is with
  the storage client and the rest waits for it.
\<close>

datatype upload_state =
    Caught error
  | InFlight in_flight

text \<open>
  \<open>batchPromises\<close>: slices of \<open>batchSize\<close> promises, each slice awaited with
  \<open>Promise.all\<close> before the next is taken. Awaiting a promise is the parameter
  \<open>settle\<close>, which runs what the promise still has to do on the state it works on. With
  \<open>batchSize = 0\<close> and a promise left, the index never advances and the loop does not
  return: \<open>None\<close>.
\<close>

fun promise_all :: "('p \<Rightarrow> 's \<Rightarrow> 'r \<times> 's) \<Rightarrow> 'p list \<Rightarrow> 's \<Rightarrow> 'r list \<times> 's" where
  "promise_all settle [] s = ([], s)"
| "promise_all settle (p # ps) s =
     (case settle p s of
        (r, s1) \<Rightarrow>
          (case promise_all settle ps s1 of
             (rs, s2) \<Rightarrow> (r # rs, s2)))"

function batch_loop ::
  "('p \<Rightarrow> 's \<Rightarrow> 'r \<times> 's) \<Rightarrow> 'p list \<Rightarrow> nat \<Rightarrow> nat \<Rightarrow> 'r list \<Rightarrow> 's \<Rightarrow> ('r list \<times> 's) option" where
  "batch_loop settle promises batchSize i results s =
     (if i < length promises then
        (if batchSize = 0 then None
         else (case promise_all settle (take batchSize (drop i promises)) s of
                 (batchResults, s') \<Rightarrow>
                   batch_loop settle promises batchSize (i + batchSize)
                     (results @ batchResults) s'))
      else Some (results, s))"
  by pat_completeness auto
termination
  by (relation "measure (\<lambda>(settle, promises, batchSize, i, results, s). length promises - i)")
     auto

declare batch_loop.simps [simp del]

definition batchPromises ::
  "('p \<Rightarrow> 's \<Rightarrow> 'r \<times> 's) \<Rightarrow> 'p list \<Rightarrow> nat \<Rightarrow> 's \<Rightarrow> ('r list \<times> 's) option" where
  "batchPromises settle promises batchSize s = batch_loop settle promises batchSize 0 [] s"

subsection \<open>Reading content parts\<close>

text \<open>A property read on a value that is not an object finds nothing (\<open>"abc".type\<close>,
  \<open>[1].data\<close>), except on \<open>null\<close>, where it throws; the loops below check for \<open>null\<close>
  where they first read a property.\<close>

fun own_fields :: "json \<Rightarrow> jsobject" where
  "own_fields (JObj fs) = fs"
| "own_fields v = []"



definition with_content :: "json \<Rightarrow> json list \<Rightarrow> json" where
  "with_content v content =
     (case v of JObj fs \<Rightarrow> JObj (set_prop ''content'' (JArr content) fs) | u \<Rightarrow> u)"

definition option_list :: "'a option \<Rightarrow> 'a list" where
  "option_list x = (case x of None \<Rightarrow> [] | Some y \<Rightarrow> [y])"

definition begin_upload ::
  "storage \<Rightarrow> string \<Rightarrow> json option \<Rightarrow> json option \<Rightarrow> world \<Rightarrow> upload_state \<times> world" where
  "begin_upload st base64Data originalFilename mimeType w =
     (case upload_begin st base64Data originalFilename mimeType w of
        (Inl e, w') \<Rightarrow> (Caught e, w')
      | (Inr p, w') \<Rightarrow> (InFlight p, w'))"

text \<open>What the promise of an upload has left to do when it is awaited: the URL, or
  nothing when the upload failed at either end.\<close>

definition upload_result :: "storage \<Rightarrow> upload_state \<Rightarrow> string option" where
  "upload_result st u =
     (case u of
        Caught e \<Rightarrow> None
      | InFlight p \<Rightarrow> (case upload_end st p of Inl e \<Rightarrow> None | Inr url \<Rightarrow> Some url))"

subsection \<open>\<open>processToolResultForBase64\<close>\<close>

text \<open>The body of the loop over \<open>content\<close> for one item that is not \<open>null\<close>: no promise, or
  the promise in the state it has when it is pushed.\<close>

definition toolResultUpload ::
  "storage \<Rightarrow> json option \<Rightarrow> jsobject \<Rightarrow> world \<Rightarrow> upload_state option \<times> world" where
  "toolResultUpload st filename item w =
     (if (get_prop item ''type'' = Some (JStr ''image'') \<or> get_prop item ''type'' = Some (JStr ''file''))
         \<and> truthy (get_prop item ''data'')
      then
        (case get_prop item ''data'' of
           Some (JStr d) \<Rightarrow>
             (let isDataUrl = startsWith d ''data:'';
                  isBase64 = (\<not> isDataUrl \<and> looks_base64 (take 100 d))
              in if isDataUrl \<or> isBase64 then
                   (let mimeType =
                          js_or (get_prop item ''mimeType'')
                            (Some (JStr (if get_prop item ''type'' = Some (JStr ''image'')
                                         then ''image/jpeg'' else ''application/octet-stream'')));
                        uploadFilename =
                          js_or (get_prop item ''filename'')
                            (js_or filename
                               (Some (JStr (if get_prop item ''type'' = Some (JStr ''image'')
                                            then ''screenshot'' else ''file''))))
                    in case begin_upload st d uploadFilename (if isBase64 then mimeType else None) w of
                         (u, w') \<Rightarrow> (Some u, w'))
                 else (None, w))
         | _ \<Rightarrow> (None, w))
      else (None, w))"

fun collectToolResultUploads ::
  "storage \<Rightarrow> json option \<Rightarrow> json list \<Rightarrow> nat \<Rightarrow> world \<Rightarrow> (error + (nat \<times> upload_state) list) \<times> world" where
  "collectToolResultUploads st filename [] i w = (Inr [], w)"
| "collectToolResultUploads st filename (item # items) i w =
     (if item = JNull then (Inl TypeError, w)
      else (case toolResultUpload st filename (own_fields item) w of
              (u, w1) \<Rightarrow>
                (case collectToolResultUploads st filename items (Suc i) w1 of
                   (Inl e, w2) \<Rightarrow> (Inl e, w2)
                 | (Inr uploadPromises, w2) \<Rightarrow>
                     (Inr (option_list (map_option (Pair i) u) @ uploadPromises), w2))))"





subsection \<open>\<open>processMessagesForBase64\<close>\<close>

datatype part_kind = ImagePart | FilePart

type_synonym message_upload = "(nat \<times> nat) \<times> part_kind \<times> upload_state"

text \<open>The two tests the inner loop makes on a part that is not \<open>null\<close>.\<close>

definition imagePartUpload :: "storage \<Rightarrow> jsobject \<Rightarrow> world \<Rightarrow> upload_state option \<times> world" where
  "imagePartUpload st part w =
     (if get_prop part ''type'' = Some (JStr ''image'') then
        (case js_or (get_prop part ''image'') (get_prop part ''data'') of
           Some (JStr imageData) \<Rightarrow>
             (if imageData \<noteq> [] then
                (let isDataUrl = startsWith imageData ''data:'';
                     isBase64 = (\<not> isDataUrl \<and> looks_base64 (take 100 imageData))
                 in if isDataUrl \<or> isBase64 then
                      (let filename = js_or (get_prop part ''filename'') (Some (JStr ''image''));
                           mimeType = js_or (get_prop part ''mimeType'') (Some (JStr ''image/jpeg''))
                       in case begin_upload st imageData filename
                                 (if isBase64 then mimeType else None) w of
                            (u, w') \<Rightarrow> (Some u, w'))
                    else (None, w))
              else (None, w))
         | _ \<Rightarrow> (None, w))
      else (None, w))"

definition filePartUpload :: "storage \<Rightarrow> jsobject \<Rightarrow> world \<Rightarrow> upload_state option \<times> world" where
  "filePartUpload st part w =
     (if get_prop part ''type'' = Some (JStr ''file'') \<and> truthy (get_prop part ''data'') then
        (case get_prop part ''data'' of
           Some (JStr d) \<Rightarrow>
             (let isDataUrl = startsWith d ''data:'';
                  isBase64 = (\<not> isDataUrl \<and> looks_base64 (take 100 d))
              in if isDataUrl \<or> isBase64 then
                   (let filename =
                          js_or (get_prop part ''filename'')
                            (js_or (get_prop part ''name'') (Some (JStr ''file'')));
                        mimeType =
                          js_or (get_prop part ''mimeType'')
                            (js_or (get_prop part ''mediaType'')
                               (Some (JStr ''application/octet-stream'')))
                    in case begin_upload st d filename (if isBase64 then mimeType else None) w of
                         (u, w') \<Rightarrow> (Some u, w'))
                 else (None, w))
         | _ \<Rightarrow> (None, w))
      else (None, w))"



text \<open>What the promise of an image part does to the part once it has the URL, and what
  the promise of a file part does.\<close>

definition finish_image :: "string \<Rightarrow> jsobject \<Rightarrow> jsobject" where
  "finish_image url part =
     (let part1 =
            (if truthy (get_prop part ''image'') then set_prop ''image'' (JStr url) part
             else if truthy (get_prop part ''data'')
                  then set_prop ''url'' (JStr url) (delete_prop ''data'' part)
                  else part)
      in if truthy (get_prop part1 ''mimeType'') then delete_prop ''mimeType'' part1 else part1)"

definition finish_file :: "string \<Rightarrow> jsobject \<Rightarrow> jsobject" where
  "finish_file url part =
     (let part1 = set_prop ''url'' (JStr url) (delete_prop ''data'' part)
      in if truthy (get_prop part1 ''mimeType'') then delete_prop ''mimeType'' part1 else part1)"



text \<open>What awaiting the promises makes of one part and of one message: a part whose
  promise got a URL is finished as its kind says, every other part is as it was, and
  nothing else of a message changes.\<close>

definition settledMessagePart :: "storage \<Rightarrow> (part_kind \<times> upload_state) option \<Rightarrow> json \<Rightarrow> json" where
  "settledMessagePart st promise part =
     (case promise of
        None \<Rightarrow> part
      | Some (kind, u) \<Rightarrow>
          (case upload_result st u of
             None \<Rightarrow> part
           | Some url \<Rightarrow>
               JObj ((case kind of ImagePart \<Rightarrow> finish_image url | FilePart \<Rightarrow> finish_file url)
                       (own_fields part))))"

definition settledMessage :: "storage \<Rightarrow> message_upload list \<Rightarrow> nat \<Rightarrow> json \<Rightarrow> json" where
  "settledMessage st ps i message =
     (case get_prop (own_fields message) ''content'' of
        Some (JArr parts) \<Rightarrow>
          with_content message
            (map (\<lambda>j. settledMessagePart st (map_of ps (i, j)) (parts ! j)) [0..<length parts])
      | _ \<Rightarrow> message)"



subsection \<open>The upload primitive in the words of the specification\<close>


definition subtype_of :: "string \<Rightarrow> string" where
  "subtype_of m = takeWhile (\<lambda>x. x \<noteq> CHR ''/'') (drop 1 (dropWhile (\<lambda>x. x \<noteq> CHR ''/'') m))"

definition spec_extension :: "string \<Rightarrow> string" where
  "spec_extension m =
     (case map_of mimeToExt m of
        Some ext \<Rightarrow> ext
      | None \<Rightarrow> if subtype_of m \<noteq> [] then subtype_of m else ''bin'')"



subsection \<open>Surroundings for concrete runs\<close>

text \<open>The storage as the test suite mocks it: one identifier, every put accepted, one
  URL; and a storage whose first put is rejected.\<close>

definition test_storage :: storage where
  "test_storage =
     \<lparr>BUCKET_NAME = ''test-bucket'',
      randomUUID = (\<lambda>n. ''test-uuid-1234''),
      s3_send = (\<lambda>n c. True),
      getSignedUrl = (\<lambda>b k e. Some ''https://test-presigned-url.com'')\<rparr>"


definition new_world :: world where
  "new_world = \<lparr>uuid_calls = 0, put_calls = []\<rparr>"


text \<open>An image part as a tool returns it, and the number of promises whose put command
  is with the storage client.\<close>

definition png_part :: json where
  "png_part = JObj [(''type'', JStr ''image''), (''data'', JStr ''data:image/png;base64,image0''),
                    (''mimeType'', JStr ''image/png'')]"

fun is_in_flight :: "upload_state \<Rightarrow> bool" where
  "is_in_flight (InFlight p) = True"
| "is_in_flight (Caught e) = False"

definition in_flight_count :: "('slot \<times> upload_state) list \<Rightarrow> nat" where
  "in_flight_count ps = length (filter (\<lambda>p. is_in_flight (snd p)) ps)"

subsection \<open>Message lists without base64 payloads\<close>




subsection \<open>Concrete inputs\<close>








section \<open>The entry points on a store of objects and arrays\<close>

text \<open>
  Whether a call leaves the caller's objects alone cannot be read off a model in which
  values are trees. Here objects and arrays live in a store and are held by reference: a
  cell is an object or an array, its fields and elements are primitive values or
  addresses, allocation appends a cell, and assignment to a field replaces the cell at an
  address. What the code decides is decided as above, from the JSON tree the store shows
  at a value; what the code writes is a store update.
\<close>

datatype val = VNull | VBool bool | VNum string | VStr string | VRef nat

datatype cell = Obj "(string \<times> val) list" | Arr "val list"

type_synonym store = "cell list"

text \<open>The tree a value shows, to a given depth. A value of an acyclic store is no deeper
  than the store has cells.\<close>

primrec json_of :: "nat \<Rightarrow> store \<Rightarrow> val \<Rightarrow> json option" where
  "json_of 0 h v =
     (case v of
        VNull \<Rightarrow> Some JNull
      | VBool b \<Rightarrow> Some (JBool b)
      | VNum x \<Rightarrow> Some (JNum x)
      | VStr s \<Rightarrow> Some (JStr s)
      | VRef a \<Rightarrow> None)"
| "json_of (Suc n) h v =
     (case v of
        VNull \<Rightarrow> Some JNull
      | VBool b \<Rightarrow> Some (JBool b)
      | VNum x \<Rightarrow> Some (JNum x)
      | VStr s \<Rightarrow> Some (JStr s)
      | VRef a \<Rightarrow>
          (if a < length h then
             (case h ! a of
                Arr vs \<Rightarrow> map_option JArr (those (map (json_of n h) vs))
              | Obj fs \<Rightarrow>
                  map_option JObj
                    (those (map (\<lambda>kv. map_option (Pair (fst kv)) (json_of n h (snd kv))) fs)))
           else None))"

text \<open>\<open>JSON.stringify\<close>: the tree of the value; on a cyclic value it throws, which is
  \<open>None\<close> here.\<close>

definition stringify :: "store \<Rightarrow> val \<Rightarrow> json option" where
  "stringify h v = json_of (Suc (length h)) h v"

text \<open>A value as the decisions of the code see it. A cyclic value is seen as an object
  (truthy, printed as \<open>[object Object]\<close>).\<close>

definition view :: "store \<Rightarrow> val \<Rightarrow> json" where
  "view h v = (case stringify h v of Some t \<Rightarrow> t | None \<Rightarrow> JObj [])"

definition fields_view :: "store \<Rightarrow> (string \<times> val) list \<Rightarrow> jsobject" where
  "fields_view h fs = map (\<lambda>kv. (fst kv, view h (snd kv))) fs"

text \<open>\<open>JSON.parse\<close>: every array and every object of the tree becomes a new cell, its
  elements or fields first, in order.\<close>

primrec make_items :: "(store \<Rightarrow> val \<times> store) list \<Rightarrow> store \<Rightarrow> val list \<times> store" where
  "make_items [] h = ([], h)"
| "make_items (f # fs) h =
     (case f h of (v, h1) \<Rightarrow> (case make_items fs h1 of (vs, h2) \<Rightarrow> (v # vs, h2)))"

primrec make_fields ::
  "(string \<times> (store \<Rightarrow> val \<times> store)) list \<Rightarrow> store \<Rightarrow> (string \<times> val) list \<times> store" where
  "make_fields [] h = ([], h)"
| "make_fields (kf # kfs) h =
     (case snd kf h of
        (v, h1) \<Rightarrow> (case make_fields kfs h1 of (gs, h2) \<Rightarrow> ((fst kf, v) # gs, h2)))"

primrec parse_into :: "json \<Rightarrow> store \<Rightarrow> val \<times> store" where
  "parse_into JNull = (\<lambda>h. (VNull, h))"
| "parse_into (JBool b) = (\<lambda>h. (VBool b, h))"
| "parse_into (JNum x) = (\<lambda>h. (VNum x, h))"
| "parse_into (JStr s) = (\<lambda>h. (VStr s, h))"
| "parse_into (JArr xs) =
     (\<lambda>h. case make_items (map parse_into xs) h of
             (vs, h1) \<Rightarrow> (VRef (length h1), h1 @ [Arr vs]))"
| "parse_into (JObj fs) =
     (\<lambda>h. case make_fields (map (map_prod id parse_into) fs) h of
             (gs, h1) \<Rightarrow> (VRef (length h1), h1 @ [Obj gs]))"

text \<open>\<open>JSON.parse(JSON.stringify(x))\<close>.\<close>

definition clone_in_store :: "store \<Rightarrow> val \<Rightarrow> error + val \<times> store" where
  "clone_in_store h v =
     (case stringify h v of
        None \<Rightarrow> Inl TypeError
      | Some t \<Rightarrow> Inr (parse_into t h))"

text \<open>The fields of the object and the elements of the array a value refers to; a value
  that is no object has no field the code asks for, and likewise for arrays.\<close>

definition fields_at :: "store \<Rightarrow> val \<Rightarrow> (string \<times> val) list" where
  "fields_at h v =
     (case v of
        VRef a \<Rightarrow> (if a < length h then (case h ! a of Obj fs \<Rightarrow> fs | Arr vs \<Rightarrow> []) else [])
      | _ \<Rightarrow> [])"

definition elements_at :: "store \<Rightarrow> val \<Rightarrow> val list" where
  "elements_at h v =
     (case v of
        VRef a \<Rightarrow> (if a < length h then (case h ! a of Arr vs \<Rightarrow> vs | Obj fs \<Rightarrow> []) else [])
      | _ \<Rightarrow> [])"

definition is_array :: "store \<Rightarrow> val option \<Rightarrow> bool" where
  "is_array h v =
     (case v of
        Some (VRef a) \<Rightarrow> a < length h \<and> (case h ! a of Arr vs \<Rightarrow> True | Obj fs \<Rightarrow> False)
      | _ \<Rightarrow> False)"

fun truthy_val :: "val option \<Rightarrow> bool" where
  "truthy_val None = False"
| "truthy_val (Some VNull) = False"
| "truthy_val (Some (VBool b)) = b"
| "truthy_val (Some (VNum n)) = (n \<noteq> ''0'')"
| "truthy_val (Some (VStr s)) = (s \<noteq> [])"
| "truthy_val (Some (VRef a)) = True"

subsection \<open>The generic walk on the store\<close>

text \<open>
  \<open>replaceBase64InObject\<close> reads the value it is given and builds its result in new
  cells: \<open>Promise.all(obj.map(...))\<close> gives a new array and \<open>result\<close> is a new object.
  The first parameter bounds the depth of the recursion; on a cyclic value the recursion
  does not end and the call stack overflows.
\<close>

primrec replace_items_with ::
  "(val \<Rightarrow> store \<Rightarrow> world \<Rightarrow> (error + val) \<times> store \<times> world) \<Rightarrow> val list \<Rightarrow> store \<Rightarrow> world
     \<Rightarrow> (error + val list) \<times> store \<times> world" where
  "replace_items_with walk [] h w = (Inr [], h, w)"
| "replace_items_with walk (x # xs) h w =
     (case walk x h w of
        (Inl e, h1, w1) \<Rightarrow> (Inl e, h1, w1)
      | (Inr y, h1, w1) \<Rightarrow>
          (case replace_items_with walk xs h1 w1 of
             (Inl e, h2, w2) \<Rightarrow> (Inl e, h2, w2)
           | (Inr ys, h2, w2) \<Rightarrow> (Inr (y # ys), h2, w2)))"

primrec replace_entries_with ::
  "(json option \<Rightarrow> val \<Rightarrow> store \<Rightarrow> world \<Rightarrow> (error + val) \<times> store \<times> world)
     \<Rightarrow> (string \<times> val) list \<Rightarrow> json option \<Rightarrow> (string \<times> val) list \<Rightarrow> store \<Rightarrow> world
     \<Rightarrow> (error + (string \<times> val) list) \<times> store \<times> world" where
  "replace_entries_with walk obj mimeType [] h w = (Inr [], h, w)"
| "replace_entries_with walk obj mimeType (kv # rest) h w =
     (let currentMimeType =
            (if fst kv = ''data'' \<and> has_key ''mimeType'' obj
             then map_option (view h) (get_prop obj ''mimeType'') else mimeType)
      in case walk currentMimeType (snd kv) h w of
           (Inl e, h1, w1) \<Rightarrow> (Inl e, h1, w1)
         | (Inr v, h1, w1) \<Rightarrow>
             (case replace_entries_with walk obj mimeType rest h1 w1 of
                (Inl e, h2, w2) \<Rightarrow> (Inl e, h2, w2)
              | (Inr gs, h2, w2) \<Rightarrow> (Inr ((fst kv, v) # gs), h2, w2)))"

primrec replaceBase64InObject_store ::
  "nat \<Rightarrow> storage \<Rightarrow> json option \<Rightarrow> json option \<Rightarrow> val \<Rightarrow> store \<Rightarrow> world
     \<Rightarrow> (error + val) \<times> store \<times> world" where
  "replaceBase64InObject_store 0 st filename mimeType obj h w =
     (case obj of
        VStr s \<Rightarrow>
          (case replaceBase64InObject st (JStr s) filename mimeType w of
             (r, w') \<Rightarrow> (Inr (VStr (to_string r)), h, w'))
      | VRef a \<Rightarrow> (Inl RangeError, h, w)
      | _ \<Rightarrow> (Inr obj, h, w))"
| "replaceBase64InObject_store (Suc n) st filename mimeType obj h w =
     (case obj of
        VStr s \<Rightarrow>
          (case replaceBase64InObject st (JStr s) filename mimeType w of
             (r, w') \<Rightarrow> (Inr (VStr (to_string r)), h, w'))
      | VRef a \<Rightarrow>
          (if a < length h then
             (case h ! a of
                Arr vs \<Rightarrow>
                  (case replace_items_with (replaceBase64InObject_store n st filename mimeType)
                          vs h w of
                     (Inl e, h', w') \<Rightarrow> (Inl e, h', w')
                   | (Inr us, h', w') \<Rightarrow> (Inr (VRef (length h')), h' @ [Arr us], w'))
              | Obj fs \<Rightarrow>
                  (case replace_entries_with (replaceBase64InObject_store n st filename)
                          fs mimeType fs h w of
                     (Inl e, h', w') \<Rightarrow> (Inl e, h', w')
                   | (Inr gs, h', w') \<Rightarrow> (Inr (VRef (length h')), h' @ [Obj gs], w')))
           else (Inr obj, h, w))
      | _ \<Rightarrow> (Inr obj, h, w))"

definition processToolCallForBase64_store ::
  "storage \<Rightarrow> store \<Rightarrow> string \<times> val \<Rightarrow> world \<Rightarrow> (error + string \<times> val) \<times> store \<times> world" where
  "processToolCallForBase64_store st h toolCall w =
     (case clone_in_store h (snd toolCall) of
        Inl e \<Rightarrow> (Inl e, h, w)
      | Inr (processedArgs, h1) \<Rightarrow>
          (let filename =
                 (if has_key ''filename'' (fields_at h1 processedArgs)
                  then map_option (view h1) (get_prop (fields_at h1 processedArgs) ''filename'')
                  else None)
           in case replaceBase64InObject_store (Suc (length h1)) st filename None processedArgs h1 w of
                (Inl e, h2, w') \<Rightarrow> (Inl e, h2, w')
              | (Inr updatedArgs, h2, w') \<Rightarrow> (Inr (fst toolCall, updatedArgs), h2, w')))"

subsection \<open>Content parts on the store\<close>

text \<open>A promise remembers the object it will write to, that is the address the loop
  variable \<open>item\<close> or \<open>part\<close> held.\<close>

fun collectToolResultUploads_store ::
  "storage \<Rightarrow> json option \<Rightarrow> store \<Rightarrow> val list \<Rightarrow> world
     \<Rightarrow> (error + (nat \<times> upload_state) list) \<times> world" where
  "collectToolResultUploads_store st filename h [] w = (Inr [], w)"
| "collectToolResultUploads_store st filename h (item # items) w =
     (case item of
        VNull \<Rightarrow> (Inl TypeError, w)
      | VRef a \<Rightarrow>
          (case toolResultUpload st filename (fields_view h (fields_at h item)) w of
             (u, w1) \<Rightarrow>
               (case collectToolResultUploads_store st filename h items w1 of
                  (Inl e, w2) \<Rightarrow> (Inl e, w2)
                | (Inr uploadPromises, w2) \<Rightarrow>
                    (Inr (option_list (map_option (Pair a) u) @ uploadPromises), w2)))
      | _ \<Rightarrow> collectToolResultUploads_store st filename h items w)"

text \<open>\<open>delete item.data; item.url = url\<close> on the object at the address.\<close>

definition finishToolResultUpload_store ::
  "storage \<Rightarrow> nat \<times> upload_state \<Rightarrow> store \<Rightarrow> unit \<times> store" where
  "finishToolResultUpload_store st promise h =
     (case upload_result st (snd promise) of
        None \<Rightarrow> ((), h)
      | Some url \<Rightarrow>
          ((), h[fst promise :=
                   Obj (set_prop ''url'' (VStr url)
                          (delete_prop ''data'' (fields_at h (VRef (fst promise)))))]))"

definition processToolResultForBase64_store ::
  "storage \<Rightarrow> store \<Rightarrow> val \<Rightarrow> json option \<Rightarrow> world
     \<Rightarrow> ((error + val) \<times> store \<times> world) option" where
  "processToolResultForBase64_store st h result filename w =
     (if has_key ''content'' (fields_at h result)
         \<and> is_array h (get_prop (fields_at h result) ''content'')
      then
        (case clone_in_store h result of
           Inl e \<Rightarrow> Some (Inl e, h, w)
         | Inr (clonedResult, h1) \<Rightarrow>
             (let content =
                    (case get_prop (fields_at h1 clonedResult) ''content'' of
                       Some c \<Rightarrow> elements_at h1 c
                     | None \<Rightarrow> [])
              in case collectToolResultUploads_store st filename h1 content w of
                   (Inl e, w1) \<Rightarrow> Some (Inl e, h1, w1)
                 | (Inr uploadPromises, w1) \<Rightarrow>
                     (if length uploadPromises > 0 then
                        (case batchPromises (finishToolResultUpload_store st) uploadPromises
                                MAX_CONCURRENT_UPLOADS h1 of
                           None \<Rightarrow> None
                         | Some (settled, h2) \<Rightarrow> Some (Inr clonedResult, h2, w1))
                      else Some (Inr clonedResult, h1, w1))))
      else
        (case replaceBase64InObject_store (Suc (length h)) st filename None result h w of
           (r, h', w') \<Rightarrow> Some (r, h', w')))"

text \<open>The promises of the message list, the writes they make, and the entry point. The
  entry point is given the array of its signature, \<open>messages: unknown[]\<close>; what the loop
  over \<open>clonedMessages.length\<close> does on a value that is no array is not modelled.\<close>

fun collectPartUploads_store ::
  "storage \<Rightarrow> store \<Rightarrow> val list \<Rightarrow> world
     \<Rightarrow> (error + (nat \<times> part_kind \<times> upload_state) list) \<times> world" where
  "collectPartUploads_store st h [] w = (Inr [], w)"
| "collectPartUploads_store st h (part # parts) w =
     (case part of
        VNull \<Rightarrow> (Inl TypeError, w)
      | VRef a \<Rightarrow>
          (case imagePartUpload st (fields_view h (fields_at h part)) w of
             (u, w1) \<Rightarrow>
               (case filePartUpload st (fields_view h (fields_at h part)) w1 of
                  (v, w2) \<Rightarrow>
                    (case collectPartUploads_store st h parts w2 of
                       (Inl e, w3) \<Rightarrow> (Inl e, w3)
                     | (Inr uploadPromises, w3) \<Rightarrow>
                         (Inr (option_list (map_option (\<lambda>s. (a, ImagePart, s)) u)
                               @ option_list (map_option (\<lambda>s. (a, FilePart, s)) v)
                               @ uploadPromises), w3))))
      | _ \<Rightarrow> collectPartUploads_store st h parts w)"

fun collectMessageUploads_store ::
  "storage \<Rightarrow> store \<Rightarrow> val list \<Rightarrow> world
     \<Rightarrow> (error + (nat \<times> part_kind \<times> upload_state) list) \<times> world" where
  "collectMessageUploads_store st h [] w = (Inr [], w)"
| "collectMessageUploads_store st h (message # messages) w =
     (if message = VNull then (Inl TypeError, w)
      else (case (if is_array h (get_prop (fields_at h message) ''content'')
                  then collectPartUploads_store st h
                         (case get_prop (fields_at h message) ''content'' of
                            Some c \<Rightarrow> elements_at h c
                          | None \<Rightarrow> []) w
                  else (Inr [], w)) of
              (Inl e, w1) \<Rightarrow> (Inl e, w1)
            | (Inr here, w1) \<Rightarrow>
                (case collectMessageUploads_store st h messages w1 of
                   (Inl e, w2) \<Rightarrow> (Inl e, w2)
                 | (Inr uploadPromises, w2) \<Rightarrow> (Inr (here @ uploadPromises), w2))))"

definition finish_image_store :: "string \<Rightarrow> (string \<times> val) list \<Rightarrow> (string \<times> val) list" where
  "finish_image_store url part =
     (let part1 =
            (if truthy_val (get_prop part ''image'') then set_prop ''image'' (VStr url) part
             else if truthy_val (get_prop part ''data'')
                  then set_prop ''url'' (VStr url) (delete_prop ''data'' part)
                  else part)
      in if truthy_val (get_prop part1 ''mimeType'') then delete_prop ''mimeType'' part1 else part1)"

definition finish_file_store :: "string \<Rightarrow> (string \<times> val) list \<Rightarrow> (string \<times> val) list" where
  "finish_file_store url part =
     (let part1 = set_prop ''url'' (VStr url) (delete_prop ''data'' part)
      in if truthy_val (get_prop part1 ''mimeType'') then delete_prop ''mimeType'' part1 else part1)"

definition finishMessageUpload_store ::
  "storage \<Rightarrow> nat \<times> part_kind \<times> upload_state \<Rightarrow> store \<Rightarrow> unit \<times> store" where
  "finishMessageUpload_store st promise h =
     (case promise of
        (a, kind, u) \<Rightarrow>
          (case upload_result st u of
             None \<Rightarrow> ((), h)
           | Some url \<Rightarrow>
               ((), h[a := Obj ((case kind of
                                   ImagePart \<Rightarrow> finish_image_store url
                                 | FilePart \<Rightarrow> finish_file_store url)
                                  (fields_at h (VRef a)))])))"

definition processMessagesForBase64_store ::
  "storage \<Rightarrow> store \<Rightarrow> val \<Rightarrow> world \<Rightarrow> ((error + val) \<times> store \<times> world) option" where
  "processMessagesForBase64_store st h messages w =
     (case clone_in_store h messages of
        Inl e \<Rightarrow> Some (Inl e, h, w)
      | Inr (clonedMessages, h1) \<Rightarrow>
          (case collectMessageUploads_store st h1 (elements_at h1 clonedMessages) w of
             (Inl e, w1) \<Rightarrow> Some (Inl e, h1, w1)
           | (Inr uploadPromises, w1) \<Rightarrow>
               (if length uploadPromises > 0 then
                  (case batchPromises (finishMessageUpload_store st) uploadPromises
                          MAX_CONCURRENT_UPLOADS h1 of
                     None \<Rightarrow> None
                   | Some (settled, h2) \<Rightarrow> Some (Inr clonedMessages, h2, w1))
                else Some (Inr clonedMessages, h1, w1))))"

text \<open>What the frame property is about: the cells the caller had are all still there,
  each as it was; and a value that refers only to cells made since.\<close>

definition cells_unchanged :: "store \<Rightarrow> store \<Rightarrow> bool" where
  "cells_unchanged h h' = (length h \<le> length h' \<and> take (length h) h' = h)"

fun made_since :: "store \<Rightarrow> val \<Rightarrow> bool" where
  "made_since h (VRef a) = (length h \<le> a)"
| "made_since h v = True"

text \<open>A store for a concrete run. At address 1 the arguments of a tool call,
  \<open>{data: "data:image/png;base64,test", nested: {value: "original"}}\<close>; at address 5 a
  list of one message, whose content is one image part.\<close>

definition caller_store :: store where
  "caller_store =
     [Obj [(''value'', VStr ''original'')],
      Obj [(''data'', VStr ''data:image/png;base64,test''), (''nested'', VRef 0)],
      Obj [(''type'', VStr ''image''), (''data'', VStr ''data:image/png;base64,abc123''),
           (''mimeType'', VStr ''image/png'')],
      Arr [VRef 2],
      Obj [(''role'', VStr ''user''), (''content'', VRef 3)],
      Arr [VRef 4]]"

text \<open>The invariant of a run that started from the store \<open>h0\<close>: the cells of \<open>h0\<close> are
  unchanged, and the cells made since refer only to cells made since.\<close>

fun cell_made_since :: "store \<Rightarrow> cell \<Rightarrow> bool" where
  "cell_made_since h0 (Obj fs) = list_all (\<lambda>kv. made_since h0 (snd kv)) fs"
| "cell_made_since h0 (Arr vs) = list_all (made_since h0) vs"

definition grown_from :: "store \<Rightarrow> store \<Rightarrow> bool" where
  "grown_from h0 h =
     (cells_unchanged h0 h \<and> list_all (cell_made_since h0) (drop (length h0) h))"


text \<open>What a call returns when it does not throw is a primitive value or a cell made
  since.\<close>

fun result_made_since :: "store \<Rightarrow> error + val \<Rightarrow> bool" where
  "result_made_since h (Inr v) = made_since h v"
| "result_made_since h (Inl e) = True"
section \<open>Properties of the ping filter\<close>

lemma call_onerror_frame [simp]:
  "send_calls (call_onerror e w) = send_calls w"
  "onmessage_calls (call_onerror e w) = onmessage_calls w"
  by (simp_all add: call_onerror_def)

text \<open>
  C2. An inbound message whose method is \<open>ping\<close> is answered and swallowed: with an
  identifier, exactly one message is handed to the wrapped transport's \<open>send\<close>, namely
  \<open>{jsonrpc: "2.0", id: <same identifier>, result: {}}\<close>; without an identifier nothing
  is sent; in both cases the client's \<open>onmessage\<close> is not called. This holds whether the
  send resolves or rejects.
\<close>

theorem ping_absorbed:
  assumes "get_prop message ''method'' = Some (JStr ''ping'')"
  shows "(case get_prop message ''id'' of
            Some i \<Rightarrow> send_calls (inbound send message w) =
                        send_calls w @ [[(''jsonrpc'', JStr ''2.0''), (''id'', i), (''result'', JObj [])]]
          | None \<Rightarrow> send_calls (inbound send message w) = send_calls w)
         \<and> onmessage_calls (inbound send message w) = onmessage_calls w"
  using assms
  by (auto simp: inbound_def has_key_def get_prop_def handlePing_def pong_def Let_def
           split: option.splits)

theorem ping_absorbed_witness:
  "get_prop [(''jsonrpc'', JStr ''2.0''), (''id'', JNum ''7''), (''method'', JStr ''ping'')] ''method''
     = Some (JStr ''ping'')
   \<and> send_calls (inbound (\<lambda>m. None)
        [(''jsonrpc'', JStr ''2.0''), (''id'', JNum ''7''), (''method'', JStr ''ping'')] fresh_wrapper)
     = [[(''jsonrpc'', JStr ''2.0''), (''id'', JNum ''7''), (''result'', JObj [])]]
   \<and> onmessage_calls (inbound (\<lambda>m. None)
        [(''jsonrpc'', JStr ''2.0''), (''id'', JNum ''7''), (''method'', JStr ''ping'')] fresh_wrapper)
     = []
   \<and> send_calls (inbound (\<lambda>m. None)
        [(''jsonrpc'', JStr ''2.0''), (''method'', JStr ''ping'')] fresh_wrapper) = []
   \<and> onmessage_calls (inbound (\<lambda>m. None)
        [(''jsonrpc'', JStr ''2.0''), (''method'', JStr ''ping'')] fresh_wrapper) = []"
proof -
  let ?req = "[(''jsonrpc'', JStr ''2.0''), (''id'', JNum ''7''), (''method'', JStr ''ping'')]"
  let ?note = "[(''jsonrpc'', JStr ''2.0''), (''method'', JStr ''ping'')]"
  have m1: "get_prop ?req ''method'' = Some (JStr ''ping'')" by (simp add: get_prop_def)
  have m2: "get_prop ?note ''method'' = Some (JStr ''ping'')" by (simp add: get_prop_def)
  have i1: "get_prop ?req ''id'' = Some (JNum ''7'')" by (simp add: get_prop_def)
  have i2: "get_prop ?note ''id'' = None" by (simp add: get_prop_def)
  from ping_absorbed [OF m1, of "\<lambda>m. None" fresh_wrapper]
       ping_absorbed [OF m2, of "\<lambda>m. None" fresh_wrapper]
  show ?thesis using m1 by (simp add: i1 i2 fresh_wrapper_def)
qed

text \<open>
  C8. An inbound message whose method is not exactly \<open>ping\<close> (a response without a method,
  another method name, a \<open>ping\<close> field inside the parameters) is handed unchanged to the
  client's \<open>onmessage\<close> callback, once, and nothing is sent on the wrapped transport.
  The client has set its callback; an unset slot drops the message.
\<close>

theorem non_ping_forwarded:
  assumes "get_prop message ''method'' \<noteq> Some (JStr ''ping'')"
      and "onmessage_set w"
  shows "onmessage_calls (inbound send message w) = onmessage_calls w @ [message]
         \<and> send_calls (inbound send message w) = send_calls w"
  using assms by (simp add: inbound_def call_onmessage_def)

theorem non_ping_forwarded_witness:
  "get_prop [(''jsonrpc'', JStr ''2.0''), (''id'', JNum ''111''), (''method'', JStr ''someMethod''),
         (''params'', JObj [(''ping'', JBool True)])] ''method'' \<noteq> Some (JStr ''ping'')
   \<and> onmessage_set fresh_wrapper
   \<and> onmessage_calls (inbound (\<lambda>m. None)
        [(''jsonrpc'', JStr ''2.0''), (''id'', JNum ''111''), (''method'', JStr ''someMethod''),
         (''params'', JObj [(''ping'', JBool True)])] fresh_wrapper)
     = [[(''jsonrpc'', JStr ''2.0''), (''id'', JNum ''111''), (''method'', JStr ''someMethod''),
         (''params'', JObj [(''ping'', JBool True)])]]
   \<and> send_calls (inbound (\<lambda>m. None)
        [(''jsonrpc'', JStr ''2.0''), (''id'', JNum ''111''), (''method'', JStr ''someMethod''),
         (''params'', JObj [(''ping'', JBool True)])] fresh_wrapper) = []"
proof -
  let ?m = "[(''jsonrpc'', JStr ''2.0''), (''id'', JNum ''111''), (''method'', JStr ''someMethod''),
             (''params'', JObj [(''ping'', JBool True)])]"
  have a: "get_prop ?m ''method'' \<noteq> Some (JStr ''ping'')" by (simp add: get_prop_def)
  have b: "onmessage_set fresh_wrapper" by (simp add: fresh_wrapper_def)
  from non_ping_forwarded [OF a b, of "\<lambda>m. None"] a b
  show ?thesis by (simp add: fresh_wrapper_def)
qed

section \<open>Properties of the regular expressions and of the extension table\<close>

lemma eq_not_base64 [simp]: "\<not> is_base64_char CHR ''=''"
  by (simp add: is_base64_char_def is_alnum_def)

lemma dot_not_alnum [simp]: "\<not> is_alnum CHR ''.''"
  by (simp add: is_alnum_def)



text \<open>The extension test reads: the name ends with a dot and one or more letters or
  digits.\<close>

lemma has_extension_iff:
  "has_extension name \<longleftrightarrow>
     (\<exists>stem ext. name = stem @ ''.'' @ ext \<and> ext \<noteq> [] \<and> list_all is_alnum ext)"
proof
  assume h: "has_extension name"
  let ?e = "takeWhile is_alnum (rev name)" and ?r = "dropWhile is_alnum (rev name)"
  from h obtain cs where r: "?r = CHR ''.'' # cs" and e: "?e \<noteq> []"
    by (auto simp: has_extension_def split: list.splits)
  have "rev name = ?e @ ?r" by simp
  then have "name = rev ?r @ rev ?e" by (metis rev_append rev_rev_ident)
  then have "name = rev cs @ ''.'' @ rev ?e" by (simp add: r)
  moreover have "rev ?e \<noteq> []" using e by simp
  moreover have "list_all is_alnum (rev ?e)"
    by (simp add: list_all_iff) (meson set_takeWhileD)
  ultimately show "\<exists>stem ext. name = stem @ ''.'' @ ext \<and> ext \<noteq> [] \<and> list_all is_alnum ext"
    by blast
next
  assume "\<exists>stem ext. name = stem @ ''.'' @ ext \<and> ext \<noteq> [] \<and> list_all is_alnum ext"
  then obtain stem ext where n: "name = stem @ ''.'' @ ext" and e: "ext \<noteq> []" "list_all is_alnum ext"
    by blast
  have rn: "rev name = rev ext @ (CHR ''.'' # rev stem)" by (simp add: n)
  have "takeWhile is_alnum (rev name) = rev ext"
    using e(2) unfolding rn by (subst takeWhile_append2) (auto simp: list_all_iff)
  moreover have "dropWhile is_alnum (rev name) = CHR ''.'' # rev stem"
    using e(2) unfolding rn by (subst dropWhile_append2) (auto simp: list_all_iff)
  ultimately show "has_extension name" using e(1) by (simp add: has_extension_def)
qed

text \<open>The second segment of \<open>split('/')\<close> is the text between the first and the second
  slash.\<close>

lemma split_on_shape:
  "split_on c s = takeWhile (\<lambda>x. x \<noteq> c) s #
     (case dropWhile (\<lambda>x. x \<noteq> c) s of [] \<Rightarrow> [] | y # ys \<Rightarrow> split_on c ys)"
  by (induction s) (auto split: list.splits)

lemma split_on_nonempty: "split_on c s \<noteq> []"
  by (induction s) (auto split: list.splits)

lemma split_on_second:
  "(case split_on CHR ''/'' m of a # b # segs \<Rightarrow> if b \<noteq> [] then b else ''bin'' | _ \<Rightarrow> ''bin'')
     = (if subtype_of m \<noteq> [] then subtype_of m else ''bin'')"
proof (cases "dropWhile (\<lambda>x. x \<noteq> CHR ''/'') m")
  case Nil
  have "split_on CHR ''/'' m = [takeWhile (\<lambda>x. x \<noteq> CHR ''/'') m]"
    by (subst split_on_shape) (simp only: Nil list.case)
  moreover have "subtype_of m = []"
    by (simp only: subtype_of_def Nil drop_Nil takeWhile.simps)
  ultimately show ?thesis by simp
next
  case (Cons y ys)
  have "split_on CHR ''/'' m = takeWhile (\<lambda>x. x \<noteq> CHR ''/'') m # split_on CHR ''/'' ys"
    by (subst split_on_shape) (simp only: Cons list.case)
  moreover have "split_on CHR ''/'' ys = takeWhile (\<lambda>x. x \<noteq> CHR ''/'') ys #
      (case dropWhile (\<lambda>x. x \<noteq> CHR ''/'') ys of [] \<Rightarrow> [] | z # zs \<Rightarrow> split_on CHR ''/'' zs)"
    by (rule split_on_shape)
  moreover have "subtype_of m = takeWhile (\<lambda>x. x \<noteq> CHR ''/'') ys"
    by (simp add: subtype_of_def Cons)
  ultimately show ?thesis by simp
qed

lemma getExtension_string:
  "getExtensionFromMimeType (JStr m) = Inr (spec_extension m)"
  using split_on_second [of m]
  by (auto simp: getExtensionFromMimeType_def spec_extension_def split: option.splits list.splits)



section \<open>Properties of the generic walk on a string\<close>









section \<open>The batching scheduler\<close>

lemma promise_all_append:
  "promise_all settle (xs @ ys) s =
     (case promise_all settle xs s of
        (rs, s1) \<Rightarrow> (case promise_all settle ys s1 of (rs', s2) \<Rightarrow> (rs @ rs', s2)))"
  by (induction xs arbitrary: s) (auto split: prod.splits)

text \<open>With a positive batch size the loop returns, and it has awaited every promise once,
  in list order.\<close>

lemma batch_loop_returns:
  "0 < batchSize \<Longrightarrow>
   batch_loop settle promises batchSize i results s =
     (case promise_all settle (drop i promises) s of (rs, s') \<Rightarrow> Some (results @ rs, s'))"
proof (induction settle promises batchSize i results s rule: batch_loop.induct)
  case (1 settle promises batchSize i results s)
  show ?case
  proof (cases "i < length promises")
    case False
    then show ?thesis by (subst batch_loop.simps) simp
  next
    case True
    obtain rs1 s1 where b: "promise_all settle (take batchSize (drop i promises)) s = (rs1, s1)"
      by (cases "promise_all settle (take batchSize (drop i promises)) s")
    have split: "drop i promises = take batchSize (drop i promises) @ drop (i + batchSize) promises"
      by (metis add.commute append_take_drop_id drop_drop)
    have ih: "batch_loop settle promises batchSize (i + batchSize) (results @ rs1) s1 =
        (case promise_all settle (drop (i + batchSize) promises) s1 of
           (rs, s') \<Rightarrow> Some ((results @ rs1) @ rs, s'))"
      using "1.IH" [OF True _ b [symmetric] "1.prems"] "1.prems" by simp
    have "promise_all settle (drop i promises) s =
        (case promise_all settle (drop (i + batchSize) promises) s1 of
           (rs', s2) \<Rightarrow> (rs1 @ rs', s2))"
      by (subst split, subst promise_all_append) (simp add: b)
    then show ?thesis
      using True "1.prems" b ih
      by (subst batch_loop.simps) (simp split: prod.splits)
  qed
qed

lemma batchPromises_returns:
  "0 < batchSize \<Longrightarrow> batchPromises settle promises batchSize s = Some (promise_all settle promises s)"
  by (simp add: batchPromises_def batch_loop_returns split: prod.splits)

text \<open>The slices the loop takes: each has at most \<open>batchSize\<close> promises, and together,
  in order, they are the whole list.\<close>

lemma batch_slices:
  "0 < batchSize \<Longrightarrow>
   length (take batchSize (drop (k * batchSize) promises)) \<le> batchSize
   \<and> concat (map (\<lambda>k. take batchSize (drop (k * batchSize) promises)) [0..<length promises])
       = promises"
proof -
  assume p: "0 < batchSize"
  have c: "concat (map (\<lambda>k. take batchSize (drop (k * batchSize) promises)) [0..<n])
             = take (n * batchSize) promises" for n
  proof (induction n)
    case 0
    show ?case by simp
  next
    case (Suc n)
    have "take (Suc n * batchSize) promises
            = take (n * batchSize) promises @ take batchSize (drop (n * batchSize) promises)"
      by (metis add.commute mult_Suc take_add)
    with Suc show ?case by simp
  qed
  have "length promises \<le> length promises * batchSize" using p by simp
  then show ?thesis by (simp add: c)
qed

section \<open>The result of \<open>processToolResultForBase64\<close> on a content array\<close>

lemma get_prop_set_same [simp]: "get_prop (set_prop k v fs) k = Some v"
  by (induction fs) (auto simp: get_prop_def)

lemma get_prop_set_other [simp]: "k' \<noteq> k \<Longrightarrow> get_prop (set_prop k v fs) k' = get_prop fs k'"
  by (induction fs) (auto simp: get_prop_def)

lemma get_prop_delete_same [simp]: "get_prop (delete_prop k fs) k = None"
  by (induction fs) (auto simp: get_prop_def delete_prop_def)

lemma get_prop_delete_other [simp]:
  "k' \<noteq> k \<Longrightarrow> get_prop (delete_prop k fs) k' = get_prop fs k'"
  by (induction fs) (auto simp: get_prop_def delete_prop_def)




section \<open>Uploads in flight when the scheduler is entered\<close>

lemma final_filename_of_string:
  "\<exists>name. final_filename filename (JStr m) = Inr name"
  by (cases filename) (simp_all add: final_filename_def getExtension_string)

lemma parse_png_part:
  "parseDataUrl ''data:image/png;base64,image0'' = Some (''image/png'', ''image0'')"
  by (simp add: parseDataUrl_def startsWith_def has_line_terminator_def)

lemma png_part_upload:
  "\<exists>c. toolResultUpload st filename (own_fields png_part) w
          = (Some (InFlight (length (put_calls w), c)),
             w\<lparr>uuid_calls := Suc (uuid_calls w), put_calls := put_calls w @ [c]\<rparr>)"
proof -
  let ?fn = "js_or (get_prop (own_fields png_part) ''filename'')
               (js_or filename (Some (JStr ''screenshot'')))"
  obtain name where n: "final_filename ?fn (JStr ''image/png'') = Inr name"
    using final_filename_of_string by blast
  have s: "startsWith ''data:image/png;base64,image0'' ''data:''" by (simp add: startsWith_def)
  have g: "get_prop (own_fields png_part) ''type'' = Some (JStr ''image'')"
          "get_prop (own_fields png_part) ''data'' = Some (JStr ''data:image/png;base64,image0'')"
    by (simp_all add: png_part_def get_prop_def)
  show ?thesis
    using n s
    by (simp add: toolResultUpload_def g begin_upload_def upload_begin_def parse_png_part Let_def)
qed

lemma collect_png_parts:
  "\<exists>ps w'. collectToolResultUploads st filename (replicate n png_part) i w = (Inr ps, w')
      \<and> length ps = n \<and> in_flight_count ps = n
      \<and> length (put_calls w') = length (put_calls w) + n"
proof (induction n arbitrary: i w)
  case 0
  show ?case by (simp add: in_flight_count_def)
next
  case (Suc n)
  obtain c where c: "toolResultUpload st filename (own_fields png_part) w
          = (Some (InFlight (length (put_calls w), c)),
             w\<lparr>uuid_calls := Suc (uuid_calls w), put_calls := put_calls w @ [c]\<rparr>)"
    using png_part_upload by blast
  let ?w1 = "w\<lparr>uuid_calls := Suc (uuid_calls w), put_calls := put_calls w @ [c]\<rparr>"
  obtain ps w' where r: "collectToolResultUploads st filename (replicate n png_part) (Suc i) ?w1
        = (Inr ps, w')" "length ps = n" "in_flight_count ps = n"
      "length (put_calls w') = length (put_calls ?w1) + n"
    using Suc [of "Suc i" ?w1] by blast
  have nn: "png_part \<noteq> JNull" by (simp add: png_part_def)
  show ?case
    using c r nn by (simp add: option_list_def in_flight_count_def)
qed

text \<open>
  C1, on the code. A tool result with fifteen image parts: when the loop over the content
  has ended and \<open>batchPromises\<close> is about to be called, fifteen promises have been pushed
  and the put command of every one of them is already with the storage client; none has
  been awaited. The limit is ten.
\<close>

theorem fifteen_uploads_in_flight:
  "\<exists>ps w1. collectToolResultUploads test_storage None (replicate 15 png_part) 0 new_world
              = (Inr ps, w1)
     \<and> length ps = 15 \<and> in_flight_count ps = 15 \<and> length (put_calls w1) = 15
     \<and> MAX_CONCURRENT_UPLOADS < in_flight_count ps"
  using collect_png_parts [of test_storage None 15 0 new_world]
  by (auto simp: new_world_def MAX_CONCURRENT_UPLOADS_def)
lemma set_prop_same: "get_prop fs k = Some v \<Longrightarrow> set_prop k v fs = fs"
  by (induction fs) (auto simp: get_prop_def split: if_splits)


section \<open>The result of \<open>processMessagesForBase64\<close>\<close>

lemma set_prop_twice [simp]: "set_prop k v (set_prop k u fs) = set_prop k v fs"
  by (induction fs) auto

lemma with_content_twice [simp]: "with_content (with_content m a) b = with_content m b"
  by (cases m) (simp_all add: with_content_def)








lemma own_fields_content_obj:
  "get_prop (own_fields m) ''content'' = Some c \<Longrightarrow> \<exists>fs. m = JObj fs"
  by (cases m) (simp_all add: get_prop_def)

lemma settledMessagePart_none [simp]: "settledMessagePart st None part = part"
  by (simp add: settledMessagePart_def)

lemma settledMessage_nil [simp]: "settledMessage st [] i m = m"
proof (cases "\<exists>parts. get_prop (own_fields m) ''content'' = Some (JArr parts)")
  case True
  then obtain parts where p: "get_prop (own_fields m) ''content'' = Some (JArr parts)" ..
  then obtain fs where m: "m = JObj fs" using own_fields_content_obj by blast
  show ?thesis
    using p by (simp add: settledMessage_def m with_content_def map_nth set_prop_same)
next
  case False
  then show ?thesis by (auto simp: settledMessage_def split: option.splits json.splits)
qed





section \<open>Message lists without payloads\<close>









section \<open>Failed uploads\<close>










section \<open>What a substituted part looks like\<close>










section \<open>Image parts with an \<open>image\<close> and a \<open>data\<close> field\<close>







section \<open>The caller's cells are left alone\<close>

lemma cells_unchanged_iff: "cells_unchanged h h' \<longleftrightarrow> (\<exists>ext. h' = h @ ext)"
proof
  assume "cells_unchanged h h'"
  then have "h' = h @ drop (length h) h'"
    by (metis append_take_drop_id cells_unchanged_def)
  then show "\<exists>ext. h' = h @ ext" ..
next
  assume "\<exists>ext. h' = h @ ext"
  then show "cells_unchanged h h'" by (auto simp: cells_unchanged_def)
qed

lemma cells_unchanged_refl [simp]: "cells_unchanged h h"
  by (simp add: cells_unchanged_def)

lemma cells_unchanged_trans:
  "cells_unchanged h h1 \<Longrightarrow> cells_unchanged h1 h2 \<Longrightarrow> cells_unchanged h h2"
  by (auto simp: cells_unchanged_iff)

lemma cells_unchanged_append [simp]: "cells_unchanged h (h @ ext)"
  by (simp add: cells_unchanged_iff)

lemma cells_unchanged_update:
  "cells_unchanged h0 h \<Longrightarrow> length h0 \<le> a \<Longrightarrow> cells_unchanged h0 (h[a := c])"
  by (simp add: cells_unchanged_def)

lemma grown_from_refl [simp]: "grown_from h h"
  by (simp add: grown_from_def)

lemma grown_from_alloc:
  "grown_from h0 h \<Longrightarrow> cell_made_since h0 c \<Longrightarrow> grown_from h0 (h @ [c])"
  by (auto simp: grown_from_def cells_unchanged_iff)

lemma made_since_new: "cells_unchanged h0 h \<Longrightarrow> made_since h0 (VRef (length h))"
  by (simp add: cells_unchanged_def)

text \<open>\<open>JSON.parse\<close> only adds cells, and what it adds refers to what it adds.\<close>

lemma make_items_grown:
  assumes "\<And>f h. f \<in> set fs \<Longrightarrow> grown_from h0 h
             \<Longrightarrow> grown_from h0 (snd (f h)) \<and> made_since h0 (fst (f h))"
    and "grown_from h0 h"
  shows "grown_from h0 (snd (make_items fs h)) \<and> list_all (made_since h0) (fst (make_items fs h))"
  using assms
proof (induction fs arbitrary: h)
  case Nil
  then show ?case by simp
next
  case (Cons f fs)
  obtain v h1 where f: "f h = (v, h1)" by (cases "f h")
  from Cons.prems(1) [of f h] Cons.prems(2) f have g1: "grown_from h0 h1" and v: "made_since h0 v"
    by auto
  have "grown_from h0 (snd (make_items fs h1)) \<and> list_all (made_since h0) (fst (make_items fs h1))"
    by (rule Cons.IH) (use Cons.prems(1) g1 in auto)
  with v show ?case by (auto simp: f split: prod.splits)
qed

lemma make_fields_grown:
  assumes "\<And>kf h. kf \<in> set kfs \<Longrightarrow> grown_from h0 h
             \<Longrightarrow> grown_from h0 (snd (snd kf h)) \<and> made_since h0 (fst (snd kf h))"
    and "grown_from h0 h"
  shows "grown_from h0 (snd (make_fields kfs h))
         \<and> list_all (\<lambda>kv. made_since h0 (snd kv)) (fst (make_fields kfs h))"
  using assms
proof (induction kfs arbitrary: h)
  case Nil
  then show ?case by simp
next
  case (Cons kf kfs)
  obtain v h1 where f: "snd kf h = (v, h1)" by (cases "snd kf h")
  from Cons.prems(1) [of kf h] Cons.prems(2) f have g1: "grown_from h0 h1" and v: "made_since h0 v"
    by auto
  have "grown_from h0 (snd (make_fields kfs h1))
         \<and> list_all (\<lambda>kv. made_since h0 (snd kv)) (fst (make_fields kfs h1))"
    by (rule Cons.IH) (use Cons.prems(1) g1 in auto)
  with v show ?case by (auto simp: f split: prod.splits)
qed

lemma parse_into_grown:
  "grown_from h0 h \<Longrightarrow>
     grown_from h0 (snd (parse_into t h)) \<and> made_since h0 (fst (parse_into t h))"
proof (induction t arbitrary: h)
  case (JArr xs)
  obtain vs h1 where m: "make_items (map parse_into xs) h = (vs, h1)"
    by (cases "make_items (map parse_into xs) h")
  have "grown_from h0 (snd (make_items (map parse_into xs) h))
        \<and> list_all (made_since h0) (fst (make_items (map parse_into xs) h))"
    by (rule make_items_grown) (use JArr in auto)
  then have g: "grown_from h0 h1" and l: "list_all (made_since h0) vs" by (simp_all add: m)
  have "grown_from h0 (h1 @ [Arr vs])" by (rule grown_from_alloc [OF g]) (simp add: l)
  moreover have "made_since h0 (VRef (length h1))"
    using g by (simp add: grown_from_def cells_unchanged_def)
  ultimately show ?case by (simp add: m)
next
  case (JObj fs)
  have "grown_from h0 (snd (make_fields (map (map_prod id parse_into) fs) h))
        \<and> list_all (\<lambda>kv. made_since h0 (snd kv))
            (fst (make_fields (map (map_prod id parse_into) fs) h))"
  proof (rule make_fields_grown)
    fix kf h'
    assume kf: "kf \<in> set (map (map_prod id parse_into) fs)" and g: "grown_from h0 h'"
    then obtain k x where "(k, x) \<in> set fs" "kf = (k, parse_into x)" by auto
    with JObj.IH g show "grown_from h0 (snd (snd kf h')) \<and> made_since h0 (fst (snd kf h'))"
      by (metis snd_conv snds.intros)
  qed (rule JObj.prems)
  moreover obtain gs h1 where m: "make_fields (map (map_prod id parse_into) fs) h = (gs, h1)"
    by (cases "make_fields (map (map_prod id parse_into) fs) h")
  ultimately have g: "grown_from h0 h1" and l: "list_all (\<lambda>kv. made_since h0 (snd kv)) gs"
    by simp_all
  have "grown_from h0 (h1 @ [Obj gs])" by (rule grown_from_alloc [OF g]) (simp add: l)
  moreover have "made_since h0 (VRef (length h1))"
    using g by (simp add: grown_from_def cells_unchanged_def)
  ultimately show ?case by (simp add: m)
qed simp_all

lemma clone_grown:
  "clone_in_store h v = Inr (c, h1) \<Longrightarrow> grown_from h h1 \<and> made_since h c"
  using parse_into_grown [of h h]
  by (auto simp: clone_in_store_def split: option.splits) (metis fst_conv snd_conv)+

text \<open>In a store grown from \<open>h0\<close>, what is reached from a value made since is made since.\<close>

lemma grown_cell:
  assumes "grown_from h0 h" and "length h0 \<le> a" and "a < length h"
  shows "cell_made_since h0 (h ! a)"
proof -
  have "h ! a = drop (length h0) h ! (a - length h0)" using assms by simp
  moreover have "a - length h0 < length (drop (length h0) h)" using assms by simp
  ultimately show ?thesis
    using assms(1) by (metis grown_from_def list_all_length)
qed

lemma fields_at_made_since:
  assumes "grown_from h0 h" and "made_since h0 v"
  shows "list_all (\<lambda>kv. made_since h0 (snd kv)) (fields_at h v)"
proof (cases v)
  case (VRef a)
  show ?thesis
  proof (cases "a < length h")
    case True
    with assms VRef have "cell_made_since h0 (h ! a)" by (simp add: grown_cell)
    then show ?thesis using True VRef by (cases "h ! a") (simp_all add: fields_at_def)
  qed (simp add: fields_at_def VRef)
qed (simp_all add: fields_at_def)

lemma elements_at_made_since:
  assumes "grown_from h0 h" and "made_since h0 v"
  shows "list_all (made_since h0) (elements_at h v)"
proof (cases v)
  case (VRef a)
  show ?thesis
  proof (cases "a < length h")
    case True
    with assms VRef have "cell_made_since h0 (h ! a)" by (simp add: grown_cell)
    then show ?thesis using True VRef by (cases "h ! a") (simp_all add: elements_at_def)
  qed (simp add: elements_at_def VRef)
qed (simp_all add: elements_at_def)

lemma get_prop_made_since:
  "list_all (\<lambda>kv. made_since h0 (snd kv)) fs \<Longrightarrow> get_prop fs k = Some v \<Longrightarrow> made_since h0 v"
  by (induction fs) (auto simp: get_prop_def split: if_splits)

lemma content_made_since:
  assumes "grown_from h0 h" and "made_since h0 v"
  shows "list_all (made_since h0)
           (case get_prop (fields_at h v) ''content'' of Some c \<Rightarrow> elements_at h c | None \<Rightarrow> [])"
proof (cases "get_prop (fields_at h v) ''content''")
  case None
  then show ?thesis by simp
next
  case (Some c)
  from get_prop_made_since [OF fields_at_made_since [OF assms] Some]
  show ?thesis using Some elements_at_made_since [OF assms(1)] by simp
qed
text \<open>The promises of a call on the copy write to cells of the copy.\<close>

lemma collectToolResult_store_slots:
  "collectToolResultUploads_store st filename h items w = (Inr ps, w') \<Longrightarrow>
   list_all (made_since h0) items \<Longrightarrow> list_all (\<lambda>p. length h0 \<le> fst p) ps"
proof (induction items arbitrary: w ps)
  case Nil
  then show ?case by simp
next
  case (Cons item items)
  show ?case
  proof (cases item)
    case (VRef a)
    from Cons.prems(1) VRef obtain u w1 qs where
      r: "collectToolResultUploads_store st filename h items w1 = (Inr qs, w')"
      and ps: "ps = option_list (map_option (Pair a) u) @ qs"
      by (auto split: prod.splits sum.splits)
    from Cons.prems(2) VRef have "length h0 \<le> a" by simp
    moreover have "list_all (\<lambda>p. length h0 \<le> fst p) qs"
      using Cons.IH [OF r] Cons.prems(2) by simp
    ultimately show ?thesis by (cases u) (simp_all add: ps option_list_def)
  qed (use Cons in \<open>auto split: prod.splits sum.splits\<close>)
qed

lemma collectPart_store_slots:
  "collectPartUploads_store st h parts w = (Inr ps, w') \<Longrightarrow>
   list_all (made_since h0) parts \<Longrightarrow> list_all (\<lambda>p. length h0 \<le> fst p) ps"
proof (induction parts arbitrary: w ps)
  case Nil
  then show ?case by simp
next
  case (Cons part parts)
  show ?case
  proof (cases part)
    case (VRef a)
    from Cons.prems(1) VRef obtain u v w2 qs where
      r: "collectPartUploads_store st h parts w2 = (Inr qs, w')"
      and ps: "ps = option_list (map_option (\<lambda>s. (a, ImagePart, s)) u)
                    @ option_list (map_option (\<lambda>s. (a, FilePart, s)) v) @ qs"
      by (auto split: prod.splits sum.splits)
    from Cons.prems(2) VRef have "length h0 \<le> a" by simp
    moreover have "list_all (\<lambda>p. length h0 \<le> fst p) qs"
      using Cons.IH [OF r] Cons.prems(2) by simp
    ultimately show ?thesis by (cases u; cases v) (simp_all add: ps option_list_def)
  qed (use Cons in \<open>auto split: prod.splits sum.splits\<close>)
qed

lemma collectMessage_store_slots:
  "collectMessageUploads_store st h messages w = (Inr ps, w') \<Longrightarrow>
   grown_from h0 h \<Longrightarrow> list_all (made_since h0) messages \<Longrightarrow>
   list_all (\<lambda>p. length h0 \<le> fst p) ps"
proof (induction messages arbitrary: w ps)
  case Nil
  then show ?case by simp
next
  case (Cons message messages)
  let ?parts = "case get_prop (fields_at h message) ''content'' of
                  Some c \<Rightarrow> elements_at h c | None \<Rightarrow> []"
  from Cons.prems(1) obtain here w1 qs where
    h: "(if is_array h (get_prop (fields_at h message) ''content'')
         then collectPartUploads_store st h ?parts w else (Inr [], w)) = (Inr here, w1)"
    and r: "collectMessageUploads_store st h messages w1 = (Inr qs, w')"
    and ps: "ps = here @ qs"
    by (auto split: if_splits prod.splits sum.splits)
  from Cons.prems(3) have m: "made_since h0 message" and ms: "list_all (made_since h0) messages"
    by simp_all
  have "list_all (\<lambda>p. length h0 \<le> fst p) here"
  proof (cases "is_array h (get_prop (fields_at h message) ''content'')")
    case True
    with h have c: "collectPartUploads_store st h ?parts w = (Inr here, w1)" by simp
    show ?thesis
      by (rule collectPart_store_slots [OF c]) (rule content_made_since [OF Cons.prems(2) m])
  next
    case False
    with h show ?thesis by simp
  qed
  moreover have "list_all (\<lambda>p. length h0 \<le> fst p) qs"
    by (rule Cons.IH [OF r Cons.prems(2) ms])
  ultimately show ?case by (simp add: ps)
qed

text \<open>Awaiting such promises leaves the caller's cells as they were.\<close>

lemma finish_all_store:
  assumes "\<And>p h. length h0 \<le> slot p \<Longrightarrow> cells_unchanged h0 h
             \<Longrightarrow> cells_unchanged h0 (snd (finish p h))"
    and "list_all (\<lambda>p. length h0 \<le> slot p) ps" and "cells_unchanged h0 h"
  shows "cells_unchanged h0 (snd (promise_all finish ps h))"
  using assms(2,3)
proof (induction ps arbitrary: h)
  case Nil
  then show ?case by simp
next
  case (Cons p ps)
  obtain r h1 where f: "finish p h = (r, h1)" by (cases "finish p h")
  from assms(1) [of p h] Cons.prems f have "cells_unchanged h0 h1" by simp
  from Cons.IH [OF _ this] Cons.prems(1) show ?case
    by (auto simp: f split: prod.splits)
qed

lemma finishToolResult_store_frame:
  "length h0 \<le> fst p \<Longrightarrow> cells_unchanged h0 h
     \<Longrightarrow> cells_unchanged h0 (snd (finishToolResultUpload_store st p h))"
  by (simp add: finishToolResultUpload_store_def cells_unchanged_update split: option.splits)

lemma finishMessage_store_frame:
  "length h0 \<le> fst p \<Longrightarrow> cells_unchanged h0 h
     \<Longrightarrow> cells_unchanged h0 (snd (finishMessageUpload_store st p h))"
  by (cases p) (simp add: finishMessageUpload_store_def cells_unchanged_update split: option.splits)

text \<open>The generic walk only adds cells, and a reference it returns is to a cell made since
  it started.\<close>

lemma replace_items_with_extends:
  assumes "\<And>x h w. cells_unchanged h (fst (snd (walk x h w)))"
  shows "cells_unchanged h (fst (snd (replace_items_with walk xs h w)))"
proof (induction xs arbitrary: h w)
  case Nil
  show ?case by simp
next
  case (Cons x xs)
  obtain r h1 w1 where a: "walk x h w = (r, h1, w1)" by (cases "walk x h w")
  from assms [of h x w] a have e1: "cells_unchanged h h1" by simp
  show ?case
  proof (cases r)
    case (Inl e)
    with a e1 show ?thesis by simp
  next
    case (Inr y)
    obtain r2 h2 w2 where b: "replace_items_with walk xs h1 w1 = (r2, h2, w2)"
      by (cases "replace_items_with walk xs h1 w1")
    from Cons [of h1 w1] b have "cells_unchanged h1 h2" by simp
    with e1 have "cells_unchanged h h2" by (rule cells_unchanged_trans)
    with a Inr b show ?thesis by (cases r2) simp_all
  qed
qed

lemma replace_entries_with_extends:
  assumes "\<And>m x h w. cells_unchanged h (fst (snd (walk m x h w)))"
  shows "cells_unchanged h (fst (snd (replace_entries_with walk obj mimeType kvs h w)))"
proof (induction kvs arbitrary: h w)
  case Nil
  show ?case by simp
next
  case (Cons kv kvs)
  let ?m = "if fst kv = ''data'' \<and> has_key ''mimeType'' obj
            then map_option (view h) (get_prop obj ''mimeType'') else mimeType"
  obtain r h1 w1 where a: "walk ?m (snd kv) h w = (r, h1, w1)" by (cases "walk ?m (snd kv) h w")
  from assms [of h ?m "snd kv" w] a have e1: "cells_unchanged h h1" by simp
  show ?case
  proof (cases r)
    case (Inl e)
    with a e1 show ?thesis by (simp add: Let_def)
  next
    case (Inr y)
    obtain r2 h2 w2 where b: "replace_entries_with walk obj mimeType kvs h1 w1 = (r2, h2, w2)"
      by (cases "replace_entries_with walk obj mimeType kvs h1 w1")
    from Cons [of h1 w1] b have "cells_unchanged h1 h2" by simp
    with e1 have "cells_unchanged h h2" by (rule cells_unchanged_trans)
    with a Inr b show ?thesis by (cases r2) (simp_all add: Let_def)
  qed
qed

lemma walk_store_extends:
  "cells_unchanged h (fst (snd (replaceBase64InObject_store n st filename mimeType v h w)))"
proof (induction n arbitrary: filename mimeType v h w)
  case 0
  show ?case by (cases v) (simp_all split: prod.splits)
next
  case (Suc n)
  show ?case
  proof (cases v)
    case (VRef a)
    show ?thesis
    proof (cases "a < length h")
      case False
      with VRef show ?thesis by simp
    next
      case True
      show ?thesis
      proof (cases "h ! a")
        case (Arr vs)
        let ?r = "replace_items_with (replaceBase64InObject_store n st filename mimeType) vs h w"
        have e: "cells_unchanged h (fst (snd ?r))"
          by (rule replace_items_with_extends) (rule Suc)
        obtain r h1 w1 where r: "?r = (r, h1, w1)" by (cases ?r)
        with e have "cells_unchanged h h1" by simp
        then have "cells_unchanged h (h1 @ [c])" for c
          by (auto simp: cells_unchanged_iff)
        with VRef True Arr r \<open>cells_unchanged h h1\<close> show ?thesis by (cases r) simp_all
      next
        case (Obj fs)
        let ?r = "replace_entries_with (replaceBase64InObject_store n st filename) fs mimeType fs h w"
        have e: "cells_unchanged h (fst (snd ?r))"
          by (rule replace_entries_with_extends) (rule Suc)
        obtain r h1 w1 where r: "?r = (r, h1, w1)" by (cases ?r)
        with e have "cells_unchanged h h1" by simp
        then have "cells_unchanged h (h1 @ [c])" for c
          by (auto simp: cells_unchanged_iff)
        with VRef True Obj r \<open>cells_unchanged h h1\<close> show ?thesis by (cases r) simp_all
      qed
    qed
  qed (simp_all split: prod.splits)
qed

lemma walk_store_result:
  assumes "replaceBase64InObject_store n st filename mimeType v h w = (Inr r, h', w')"
  shows "made_since h r"
proof (cases v)
  case (VRef a)
  show ?thesis
  proof (cases n)
    case 0
    with assms VRef show ?thesis by simp
  next
    case (Suc m)
    show ?thesis
    proof (cases "a < length h")
      case False
      with assms VRef Suc show ?thesis by auto
    next
      case True
      show ?thesis
      proof (cases "h ! a")
        case (Arr vs)
        let ?r = "replace_items_with (replaceBase64InObject_store m st filename mimeType) vs h w"
        have e: "cells_unchanged h (fst (snd ?r))"
          by (rule replace_items_with_extends) (rule walk_store_extends)
        obtain r1 h1 w1 where r: "?r = (r1, h1, w1)" by (cases ?r)
        with e have "length h \<le> length h1" by (simp add: cells_unchanged_def)
        with assms VRef Suc True Arr r show ?thesis by (cases r1) auto
      next
        case (Obj fs)
        let ?r = "replace_entries_with (replaceBase64InObject_store m st filename) fs mimeType fs h w"
        have e: "cells_unchanged h (fst (snd ?r))"
          by (rule replace_entries_with_extends) (rule walk_store_extends)
        obtain r1 h1 w1 where r: "?r = (r1, h1, w1)" by (cases ?r)
        with e have "length h \<le> length h1" by (simp add: cells_unchanged_def)
        with assms VRef Suc True Obj r show ?thesis by (cases r1) auto
      qed
    qed
  qed
next
  case (VStr s)
  with assms show ?thesis by (cases n) (auto split: prod.splits)
qed (use assms in \<open>cases n; auto\<close>)+
lemma made_since_mono:
  "cells_unchanged h h1 \<Longrightarrow> made_since h1 v \<Longrightarrow> made_since h v"
  by (cases v) (simp_all add: cells_unchanged_def)

subsection \<open>The three entry points\<close>

lemma tool_call_store_frame:
  assumes "processToolCallForBase64_store st h toolCall w = (r, h', w')"
  shows "cells_unchanged h h' \<and> result_made_since h (map_sum id snd r)"
proof (cases "clone_in_store h (snd toolCall)")
  case (Inl e)
  with assms show ?thesis
    by (auto simp: processToolCallForBase64_store_def cells_unchanged_refl)
next
  case (Inr p)
  obtain c h1 where p: "p = (c, h1)" by (cases p)
  from clone_grown [OF Inr [unfolded p]] have g: "cells_unchanged h h1"
    by (simp add: grown_from_def)
  let ?filename = "if has_key ''filename'' (fields_at h1 c)
                   then map_option (view h1) (get_prop (fields_at h1 c) ''filename'') else None"
  obtain r2 h2 w2 where
    k: "replaceBase64InObject_store (Suc (length h1)) st ?filename None c h1 w = (r2, h2, w2)"
    by (cases "replaceBase64InObject_store (Suc (length h1)) st ?filename None c h1 w")
  from walk_store_extends [of h1 "Suc (length h1)" st ?filename None c w] k
  have e: "cells_unchanged h1 h2" by simp
  from assms Inr p k have h': "h' = h2" and r: "r = map_sum id (Pair (fst toolCall)) r2"
    by (cases r2; simp add: processToolCallForBase64_store_def Let_def)+
  have "result_made_since h (map_sum id snd r)"
  proof (cases r2)
    case (Inl e)
    then show ?thesis by (simp add: r)
  next
    case (Inr v)
    from walk_store_result [OF k [unfolded Inr]] have "made_since h1 v" .
    with g have "made_since h v" by (rule made_since_mono)
    with Inr show ?thesis by (simp add: r)
  qed
  with cells_unchanged_trans [OF g e] show ?thesis by (simp add: h')
qed

lemma tool_result_store_frame:
  "\<exists>r h' w'. processToolResultForBase64_store st h result filename w = Some (r, h', w')
     \<and> cells_unchanged h h' \<and> result_made_since h r"
proof (cases "has_key ''content'' (fields_at h result)
              \<and> is_array h (get_prop (fields_at h result) ''content'')")
  case False
  obtain r h' w' where
    k: "replaceBase64InObject_store (Suc (length h)) st filename None result h w = (r, h', w')"
    by (cases "replaceBase64InObject_store (Suc (length h)) st filename None result h w")
  from walk_store_extends [of h "Suc (length h)" st filename None result w] k
  have "cells_unchanged h h'" by simp
  moreover have "result_made_since h r"
  proof (cases r)
    case (Inr v)
    from walk_store_result [OF k [unfolded Inr]] Inr show ?thesis by simp
  qed simp
  moreover have "processToolResultForBase64_store st h result filename w = Some (r, h', w')"
    unfolding processToolResultForBase64_store_def if_not_P [OF False] k by simp
  ultimately show ?thesis by simp
next
  case True
  show ?thesis
  proof (cases "clone_in_store h result")
    case (Inl e)
    with True show ?thesis
      by (simp add: processToolResultForBase64_store_def cells_unchanged_refl)
  next
    case (Inr p)
    obtain c h1 where p: "p = (c, h1)" by (cases p)
    from clone_grown [OF Inr [unfolded p]] have g: "grown_from h h1" and c: "made_since h c"
      by simp_all
    from g have u: "cells_unchanged h h1" by (simp add: grown_from_def)
    let ?content = "case get_prop (fields_at h1 c) ''content'' of
                      Some x \<Rightarrow> elements_at h1 x | None \<Rightarrow> []"
    have items: "list_all (made_since h) ?content" by (rule content_made_since [OF g c])
    obtain q w1 where col: "collectToolResultUploads_store st filename h1 ?content w = (q, w1)"
      by (cases "collectToolResultUploads_store st filename h1 ?content w")
    show ?thesis
    proof (cases q)
      case (Inl e)
      with True Inr p col u show ?thesis
        by (simp add: processToolResultForBase64_store_def)
    next
      case (Inr ps)
      from collectToolResult_store_slots [OF col [unfolded Inr] items]
      have slots: "list_all (\<lambda>p. length h \<le> fst p) ps" .
      have b: "batchPromises (finishToolResultUpload_store st) ps MAX_CONCURRENT_UPLOADS h1
                 = Some (promise_all (finishToolResultUpload_store st) ps h1)"
        by (rule batchPromises_returns) (simp add: MAX_CONCURRENT_UPLOADS_def)
      obtain rs h2 where pa: "promise_all (finishToolResultUpload_store st) ps h1 = (rs, h2)"
        by (cases "promise_all (finishToolResultUpload_store st) ps h1")
      have "cells_unchanged h (snd (promise_all (finishToolResultUpload_store st) ps h1))"
        by (rule finish_all_store [where slot = fst, OF _ slots u])
           (rule finishToolResult_store_frame)
      with pa have f: "cells_unchanged h h2" by simp
      from pa True \<open>clone_in_store h result = Inr p\<close> p col Inr b f u c show ?thesis
        by (simp add: processToolResultForBase64_store_def split: prod.splits)
    qed
  qed
qed

lemma messages_store_frame:
  "\<exists>r h' w'. processMessagesForBase64_store st h messages w = Some (r, h', w')
     \<and> cells_unchanged h h' \<and> result_made_since h r"
proof (cases "clone_in_store h messages")
  case (Inl e)
  then show ?thesis
    by (simp add: processMessagesForBase64_store_def cells_unchanged_refl)
next
  case (Inr p)
  obtain c h1 where p: "p = (c, h1)" by (cases p)
  from clone_grown [OF Inr [unfolded p]] have g: "grown_from h h1" and c: "made_since h c"
    by simp_all
  from g have u: "cells_unchanged h h1" by (simp add: grown_from_def)
  have items: "list_all (made_since h) (elements_at h1 c)"
    by (rule elements_at_made_since [OF g c])
  obtain q w1 where
    col: "collectMessageUploads_store st h1 (elements_at h1 c) w = (q, w1)"
    by (cases "collectMessageUploads_store st h1 (elements_at h1 c) w")
  show ?thesis
  proof (cases q)
    case (Inl e)
    with Inr p col u show ?thesis
      by (simp add: processMessagesForBase64_store_def)
  next
    case (Inr ps)
    from collectMessage_store_slots [OF col [unfolded Inr] g items]
    have slots: "list_all (\<lambda>p. length h \<le> fst p) ps" .
    have b: "batchPromises (finishMessageUpload_store st) ps MAX_CONCURRENT_UPLOADS h1
               = Some (promise_all (finishMessageUpload_store st) ps h1)"
      by (rule batchPromises_returns) (simp add: MAX_CONCURRENT_UPLOADS_def)
    obtain rs h2 where pa: "promise_all (finishMessageUpload_store st) ps h1 = (rs, h2)"
      by (cases "promise_all (finishMessageUpload_store st) ps h1")
    have "cells_unchanged h (snd (promise_all (finishMessageUpload_store st) ps h1))"
      by (rule finish_all_store [where slot = fst, OF _ slots u])
         (rule finishMessage_store_frame)
    with pa have f: "cells_unchanged h h2" by simp
    from pa \<open>clone_in_store h messages = Inr p\<close> p col Inr b f u c show ?thesis
      by (simp add: processMessagesForBase64_store_def split: prod.splits)
  qed
qed

subsection \<open>The caller's objects after a call\<close>

text \<open>
  C3. Whatever the caller passes to \<open>processToolCallForBase64\<close>,
  \<open>processToolResultForBase64\<close> or \<open>processMessagesForBase64\<close> (a list of messages, as
  its signature says), whatever the storage service does and whether the call returns a
  value or throws: the call ends, every object and array the caller had before the call is
  in the store after it exactly as it was, and a value the call returns is a primitive or
  a cell made during the call. This covers the tool result without a content array, which
  is not cloned but rebuilt by the generic walk, and the substitutions
  \<open>delete item.data; item.url = url\<close>, which are assignments to cells of the clone.
\<close>

theorem caller_input_unchanged:
  "(\<exists>r h' w'. processToolCallForBase64_store st h toolCall w = (r, h', w')
       \<and> cells_unchanged h h' \<and> result_made_since h (map_sum id snd r))
   \<and> (\<exists>r h' w'. processToolResultForBase64_store st h result filename w = Some (r, h', w')
       \<and> cells_unchanged h h' \<and> result_made_since h r)
   \<and> (is_array h (Some messages) \<longrightarrow>
        (\<exists>r h' w'. processMessagesForBase64_store st h messages w = Some (r, h', w')
           \<and> cells_unchanged h h' \<and> result_made_since h r))"
proof (intro conjI impI)
  obtain r h' w' where c: "processToolCallForBase64_store st h toolCall w = (r, h', w')"
    by (cases "processToolCallForBase64_store st h toolCall w")
  with tool_call_store_frame [OF c]
  show "\<exists>r h' w'. processToolCallForBase64_store st h toolCall w = (r, h', w')
          \<and> cells_unchanged h h' \<and> result_made_since h (map_sum id snd r)"
    by simp
next
  show "\<exists>r h' w'. processToolResultForBase64_store st h result filename w = Some (r, h', w')
          \<and> cells_unchanged h h' \<and> result_made_since h r"
    by (rule tool_result_store_frame)
next
  show "\<exists>r h' w'. processMessagesForBase64_store st h messages w = Some (r, h', w')
          \<and> cells_unchanged h h' \<and> result_made_since h r"
    by (rule messages_store_frame)
qed

text \<open>On the concrete store: a tool call with the arguments at address 1, the same object
  as a tool result without content, and the message list at address 5.\<close>

theorem caller_input_unchanged_witness:
  "is_array caller_store (Some (VRef 5))
   \<and> (\<exists>r h' w'. processToolCallForBase64_store test_storage caller_store (''upload'', VRef 1)
                    new_world = (r, h', w')
         \<and> cells_unchanged caller_store h' \<and> result_made_since caller_store (map_sum id snd r))
   \<and> (\<exists>r h' w'. processToolResultForBase64_store test_storage caller_store (VRef 1) None
                    new_world = Some (r, h', w')
         \<and> cells_unchanged caller_store h' \<and> result_made_since caller_store r)
   \<and> (\<exists>r h' w'. processMessagesForBase64_store test_storage caller_store (VRef 5)
                    new_world = Some (r, h', w')
         \<and> cells_unchanged caller_store h' \<and> result_made_since caller_store r)"
proof -
  have a: "is_array caller_store (Some (VRef 5))"
    by (simp add: is_array_def caller_store_def)
  note inst = caller_input_unchanged [where st = test_storage and h = caller_store
      and toolCall = "(''upload'', VRef 1)" and w = new_world and result = "VRef 1"
      and filename = None and messages = "VRef 5"]
  from a inst [THEN conjunct1] inst [THEN conjunct2, THEN conjunct1]
    inst [THEN conjunct2, THEN conjunct2, THEN mp, OF a]
  show ?thesis by (intro conjI)
qed
end
